theory Spec2Isabelle
  imports Complex_Main "HOL-Library.Log_Nat"
begin

section \<open>JavaScript numbers and strings\<close>

text \<open>
  A JavaScript number is an IEEE 754 double.  The finite doubles are the rationals
  \<open>m * 2^k\<close> with \<open>|m| < 2^53\<close> and \<open>k \<ge> -1074\<close>; every arithmetic operation returns
  the double nearest to the exact result, ties going to the even significand.  \<open>fl\<close> is
  that rounding: \<open>a + b\<close> of the source is \<open>fl (a + b)\<close> here, and likewise for \<open>-\<close>, \<open>*\<close>
  and \<open>/\<close>.  The exponent is not bounded above, so results of magnitude \<open>2^1024\<close> and
  more, which the machine turns into \<open>Infinity\<close>, are outside the model.  Clock readings,
  sizes and counts are integers of magnitude far below \<open>2^53\<close>, on which sums and
  differences are exact; they are modelled as \<open>int\<close> and \<open>nat\<close>.
\<close>

definition doubles :: "rat set" where
  "doubles = {of_int m * 2 powi k | m k. \<bar>m\<bar> < 2 ^ 53 \<and> - 1074 \<le> k}"

text \<open>The nearest integer, ties to even.\<close>

definition roundEven :: "rat \<Rightarrow> int" where
  "roundEven q =
     (let f = \<lfloor>q\<rfloor>; d = q - of_int f
      in if d < 1 / 2 then f else if d > 1 / 2 then f + 1 else if even f then f else f + 1)"

text \<open>The binary exponent of a positive rational: \<open>2^e \<le> x < 2^(e+1)\<close>.\<close>

definition ilog2 :: "rat \<Rightarrow> int" where
  "ilog2 x =
     (let (p, q) = quotient_of x; k = bitlen p - bitlen q
      in if 2 powi k \<le> x then k else k - 1)"

definition fl :: "rat \<Rightarrow> rat" where
  "fl x =
     (if x = 0 then 0
      else let e = max (ilog2 \<bar>x\<bar>) (- 1022); u = 2 powi (e - 52)
           in of_int (roundEven (x / u)) * u)"

text \<open>
  A JavaScript string is a sequence of UTF-16 code units; here a string is a \<open>string\<close>,
  the bytes of its UTF-8 encoding.  Concatenation, emptiness, and prefix, suffix and
  substring tests against ASCII text are the same on both.  What \<open>trim\<close>, \<open>trimStart\<close>,
  \<open>toLowerCase\<close> and \<open>length\<close> of \<open>String.prototype\<close> compute depends on Unicode tables
  and is not modelled: the four are the fields of a record that every function using them
  takes as its argument \<open>js\<close>, and the statements hold for all of them.
\<close>

record StringOps =
  trim :: "string \<Rightarrow> string"
  trimStart :: "string \<Rightarrow> string"
  toLowerCase :: "string \<Rightarrow> string"
  strLength :: "string \<Rightarrow> nat"

text \<open>
  The operations restricted to ASCII, for the closed examples: on a string of ASCII
  characters they are what JavaScript computes.
\<close>

definition asciiSpace :: "char \<Rightarrow> bool" where
  "asciiSpace c = (c \<in> set [CHR '' '', CHR 0x09, CHR 0x0A, CHR 0x0B, CHR 0x0C, CHR 0x0D])"

definition asciiLower :: "char \<Rightarrow> char" where
  "asciiLower c =
     (case map_of (zip ''ABCDEFGHIJKLMNOPQRSTUVWXYZ'' ''abcdefghijklmnopqrstuvwxyz'') c of
        None \<Rightarrow> c
      | Some l \<Rightarrow> l)"

definition asciiOps :: StringOps where
  "asciiOps =
     \<lparr>trim = (\<lambda>s. rev (dropWhile asciiSpace (rev (dropWhile asciiSpace s)))),
      trimStart = dropWhile asciiSpace,
      toLowerCase = map asciiLower,
      strLength = length\<rparr>"

section \<open>Request governance of SmartTravel: the rate limiter (services/rateLimitService.ts)\<close>

text \<open>
  Times are JavaScript epoch milliseconds (\<open>Date.now()\<close>), modelled as \<open>int\<close>.
  Token counts are doubles holding fractions, with every operation on them rounded by
  \<open>fl\<close>.  Every function that reads \<open>Date.now()\<close> takes the reading as its first
  argument \<open>now\<close>; one synchronous call of \<open>checkRateLimit\<close> reads the clock once per
  helper, and the model gives all of them the same reading.  The client identifier that
  \<open>getClientIP()\<close> derives from the browser environment is the argument \<open>a\<close>.
  Mutation of the singleton service is explicit state passing.
\<close>

record RequestLog =
  timestamp :: int
  ip :: string
  size_bytes :: int
  endpoint :: string

record RateLimitConfig =
  maxRequestsPerMinute :: nat
  maxRequestsPerHour :: nat
  maxRequestSize :: int
  bucketCapacity :: int
  refillRate :: rat
  blockDurationMinutes :: int
  suspiciousThreshold :: nat

datatype breaker = CLOSED | OPEN | HALF_OPEN

record CircuitBreakerState =
  failures :: int
  lastFailureTime :: int
  state :: breaker

record TokenBucket =
  tokens :: rat
  lastRefill :: int

record RateLimitService =
  requestLogs :: "string \<rightharpoonup> RequestLog list"
  tokenBuckets :: "string \<rightharpoonup> TokenBucket"
  blockedIPs :: "string \<rightharpoonup> int"
  circuitBreaker :: CircuitBreakerState

record RateLimitResult =
  allowed :: bool
  reason :: "string option"
  retryAfter :: "int option"

definition config :: RateLimitConfig where
  "config = \<lparr>maxRequestsPerMinute = 10, maxRequestsPerHour = 100, maxRequestSize = 50000,
     bucketCapacity = 20, refillRate = 1 / 2, blockDurationMinutes = 15,
     suspiciousThreshold = 5\<rparr>"

text \<open>The service as its field initialisers leave it.\<close>

definition initialService :: RateLimitService where
  "initialService = \<lparr>requestLogs = Map.empty, tokenBuckets = Map.empty,
     blockedIPs = Map.empty,
     circuitBreaker = \<lparr>failures = 0, lastFailureTime = 0, state = CLOSED\<rparr>\<rparr>"

definition reason_circuit :: string where
  "reason_circuit =
     ''Service temporarily unavailable due to high error rate. Please try again later.''"

definition reason_blocked :: string where
  "reason_blocked =
     ''Your IP address has been temporarily blocked due to excessive requests.''"

definition reason_size :: string where
  "reason_size =
     ''Request payload too large. Please reduce the amount of data being sent.''"

definition reason_burst :: string where
  "reason_burst = ''Too many requests too quickly. Please wait a moment and try again.''"

definition reason_minute :: string where
  "reason_minute = ''Rate limit exceeded: too many requests per minute.''"

definition reason_hour :: string where
  "reason_hour = ''Rate limit exceeded: too many requests per hour.''"

definition reason_suspicious :: string where
  "reason_suspicious =
     ''Suspicious activity detected. Your IP has been temporarily blocked.''"

definition reject :: "string \<Rightarrow> int option \<Rightarrow> RateLimitResult" where
  "reject why after = \<lparr>allowed = False, reason = Some why, retryAfter = after\<rparr>"

definition admitted :: RateLimitResult where
  "admitted = \<lparr>allowed = True, reason = None, retryAfter = None\<rparr>"

text \<open>
  \<open>isIPBlocked\<close>: a missing entry and the falsy expiry \<open>0\<close> both mean "not blocked";
  an expired entry is deleted on the way.
\<close>

definition isIPBlocked :: "int \<Rightarrow> string \<Rightarrow> RateLimitService \<Rightarrow> bool \<times> RateLimitService" where
  "isIPBlocked now a s =
     (case blockedIPs s a of
        None \<Rightarrow> (False, s)
      | Some blockExpiry \<Rightarrow>
          if blockExpiry = 0 then (False, s)
          else if now > blockExpiry
            then (False, s\<lparr>blockedIPs := (blockedIPs s)(a := None)\<rparr>)
          else (True, s))"

definition blockIP :: "int \<Rightarrow> string \<Rightarrow> RateLimitService \<Rightarrow> RateLimitService" where
  "blockIP now a s =
     s\<lparr>blockedIPs := (blockedIPs s)(a \<mapsto> now + blockDurationMinutes config * 60 * 1000)\<rparr>"

text \<open>
  \<open>checkTokenBucket\<close> in its three steps: fetch or create the bucket, refill it for the
  time passed, consume one token when at least one is there.  The bucket object is
  stored in the map in every case.
\<close>

definition fetchBucket :: "int \<Rightarrow> string \<Rightarrow> RateLimitService \<Rightarrow> TokenBucket" where
  "fetchBucket now a s =
     (case tokenBuckets s a of
        None \<Rightarrow> \<lparr>tokens = of_int (bucketCapacity config), lastRefill = now\<rparr>
      | Some b \<Rightarrow> b)"

definition refill :: "int \<Rightarrow> TokenBucket \<Rightarrow> TokenBucket" where
  "refill now b =
     (let timePassed = fl (of_int (now - lastRefill b) / 1000);
          tokensToAdd = fl (timePassed * refillRate config)
      in \<lparr>tokens = min (of_int (bucketCapacity config)) (fl (tokens b + tokensToAdd)),
          lastRefill = now\<rparr>)"

definition consume :: "TokenBucket \<Rightarrow> bool \<times> TokenBucket" where
  "consume b =
     (if tokens b \<ge> 1 then (True, b\<lparr>tokens := fl (tokens b - 1)\<rparr>) else (False, b))"

definition checkTokenBucket :: "int \<Rightarrow> string \<Rightarrow> RateLimitService \<Rightarrow> bool \<times> RateLimitService" where
  "checkTokenBucket now a s =
     (let (ok, b) = consume (refill now (fetchBucket now a s))
      in (ok, s\<lparr>tokenBuckets := (tokenBuckets s)(a \<mapsto> b)\<rparr>))"

definition checkSuspiciousPatterns :: "int \<Rightarrow> RequestLog list \<Rightarrow> bool" where
  "checkSuspiciousPatterns now logs =
     (let recentRequests = filter (\<lambda>l. now - timestamp l < 10000) logs
      in if length recentRequests \<ge> suspiciousThreshold config then True
         else
           let avgSize = (if length logs > 0
                          then fl (fold (\<lambda>l sum. fl (sum + of_int (size_bytes l))) logs 0
                                   / of_nat (length logs))
                          else (0::rat))
           in (case rev logs of
                 [] \<Rightarrow> False
               | lastRequest # _ \<Rightarrow>
                   of_int (size_bytes lastRequest) > fl (avgSize * 3)
                   \<and> size_bytes lastRequest > 10000))"

definition updateCircuitBreaker :: "int \<Rightarrow> RateLimitService \<Rightarrow> RateLimitService" where
  "updateCircuitBreaker now s =
     (let cb = circuitBreaker s;
          timeSinceLastFailure = now - lastFailureTime cb
      in case state cb of
           OPEN \<Rightarrow>
             if timeSinceLastFailure > 5 * 60 * 1000
             then s\<lparr>circuitBreaker := cb\<lparr>state := HALF_OPEN\<rparr>\<rparr> else s
         | HALF_OPEN \<Rightarrow>
             if timeSinceLastFailure > 10 * 60 * 1000
             then s\<lparr>circuitBreaker := cb\<lparr>state := CLOSED, failures := 0\<rparr>\<rparr> else s
         | CLOSED \<Rightarrow> s)"

definition recordFailure :: "int \<Rightarrow> RateLimitService \<Rightarrow> RateLimitService" where
  "recordFailure now s =
     (let cb = (circuitBreaker s)\<lparr>failures := failures (circuitBreaker s) + 1,
                                  lastFailureTime := now\<rparr>
      in if failures cb \<ge> 5 \<and> state cb = CLOSED
         then s\<lparr>circuitBreaker := cb\<lparr>state := OPEN\<rparr>\<rparr>
         else if state cb = HALF_OPEN
         then s\<lparr>circuitBreaker := cb\<lparr>state := OPEN\<rparr>\<rparr>
         else s\<lparr>circuitBreaker := cb\<rparr>)"

definition isCircuitBreakerOpen :: "RateLimitService \<Rightarrow> bool" where
  "isCircuitBreakerOpen s = (state (circuitBreaker s) = OPEN)"

definition logsOf :: "string \<Rightarrow> RateLimitService \<Rightarrow> RequestLog list" where
  "logsOf a s = (case requestLogs s a of None \<Rightarrow> [] | Some logs \<Rightarrow> logs)"

definition checkRateLimit ::
  "int \<Rightarrow> string \<Rightarrow> int \<Rightarrow> string \<Rightarrow> RateLimitService \<Rightarrow> RateLimitResult \<times> RateLimitService" where
  "checkRateLimit now a requestSize ep s =
     (if isCircuitBreakerOpen s then (reject reason_circuit (Some 300), s)
      else
        let (blocked, s1) = isIPBlocked now a s in
        if blocked
        then (reject reason_blocked
                (map_option (\<lambda>blockExpiry. \<lceil>fl (of_int (blockExpiry - now) / 1000)\<rceil>)
                   (blockedIPs s1 a)), s1)
        else if requestSize > maxRequestSize config then (reject reason_size None, s1)
        else
          let logs = logsOf a s1;
              (hasToken, s2) = checkTokenBucket now a s1 in
          if \<not> hasToken then (reject reason_burst (Some 60), s2)
          else
            let oneMinuteAgo = now - 60 * 1000;
                oneHourAgo = now - 60 * 60 * 1000;
                requestsLastMinute = length (filter (\<lambda>l. timestamp l > oneMinuteAgo) logs);
                requestsLastHour = length (filter (\<lambda>l. timestamp l > oneHourAgo) logs) in
            if requestsLastMinute \<ge> maxRequestsPerMinute config
            then (reject reason_minute (Some 60), s2)
            else if requestsLastHour \<ge> maxRequestsPerHour config
            then (reject reason_hour (Some 3600), s2)
            else if checkSuspiciousPatterns now logs
            then (reject reason_suspicious (Some (blockDurationMinutes config * 60)),
                  blockIP now a s2)
            else
              let requestLog = \<lparr>timestamp = now, ip = a, size_bytes = requestSize,
                                  endpoint = ep\<rparr>
              in (admitted, s2\<lparr>requestLogs := (requestLogs s2)(a \<mapsto> logs @ [requestLog])\<rparr>))"

text \<open>A caller issuing \<open>n\<close> admission checks one after the other at one clock reading.\<close>

fun checkRateLimitTimes ::
  "nat \<Rightarrow> int \<Rightarrow> string \<Rightarrow> int \<Rightarrow> string \<Rightarrow> RateLimitService
     \<Rightarrow> RateLimitResult list \<times> RateLimitService" where
  "checkRateLimitTimes 0 now a requestSize ep s = ([], s)"
| "checkRateLimitTimes (Suc n) now a requestSize ep s =
     (let (r, s1) = checkRateLimit now a requestSize ep s;
          (rs, s2) = checkRateLimitTimes n now a requestSize ep s1
      in (r # rs, s2))"

fun checkTokenBucketTimes ::
  "nat \<Rightarrow> int \<Rightarrow> string \<Rightarrow> RateLimitService \<Rightarrow> bool list \<times> RateLimitService" where
  "checkTokenBucketTimes 0 now a s = ([], s)"
| "checkTokenBucketTimes (Suc n) now a s =
     (let (ok, s1) = checkTokenBucket now a s;
          (oks, s2) = checkTokenBucketTimes n now a s1
      in (ok # oks, s2))"

text \<open>
  A caller issuing bucket checks one after the other, each with its clock reading and
  its identity.
\<close>

definition checkTokenBucketRun ::
  "(int \<times> string) list \<Rightarrow> RateLimitService \<Rightarrow> RateLimitService" where
  "checkTokenBucketRun calls s = fold (\<lambda>(now, a) s. snd (checkTokenBucket now a s)) calls s"

text \<open>
  The service after the block-table step and after the token-bucket step of
  \<open>checkRateLimit\<close>, named for the statements below.
\<close>

definition afterBlockCheck :: "int \<Rightarrow> string \<Rightarrow> RateLimitService \<Rightarrow> RateLimitService" where
  "afterBlockCheck now a s = snd (isIPBlocked now a s)"

definition afterBucketCheck :: "int \<Rightarrow> string \<Rightarrow> RateLimitService \<Rightarrow> RateLimitService" where
  "afterBucketCheck now a s = snd (checkTokenBucket now a (snd (isIPBlocked now a s)))"

text \<open>A caller recording one failure at each of the given clock readings, in order.\<close>

definition recordFailures :: "int list \<Rightarrow> RateLimitService \<Rightarrow> RateLimitService" where
  "recordFailures ts s = fold recordFailure ts s"

text \<open>The service after k requests of one identity were admitted at one instant.\<close>

definition burstState :: "nat \<Rightarrow> int \<Rightarrow> string \<Rightarrow> int \<Rightarrow> string \<Rightarrow> RateLimitService \<Rightarrow> bool" where
  "burstState k now a requestSize ep s \<longleftrightarrow>
     state (circuitBreaker s) = CLOSED \<and> blockedIPs s a = None
     \<and> logsOf a s = replicate k \<lparr>timestamp = now, ip = a, size_bytes = requestSize, endpoint = ep\<rparr>
     \<and> fetchBucket now a s = \<lparr>tokens = 20 - of_nat k, lastRefill = now\<rparr>"

section \<open>The autocomplete service (services/cityAutocompleteService.ts)\<close>

text \<open>\<open>xs.slice(0, n)\<close>: a negative \<open>n\<close> counts from the end of the array.\<close>

definition slice0 :: "int \<Rightarrow> 'a list \<Rightarrow> 'a list" where
  "slice0 n xs = (if n \<ge> 0 then take (nat n) xs else take (length xs - nat (- n)) xs)"

text \<open>\<open>xs.findIndex(p)\<close>: the first index whose element satisfies \<open>p\<close>, or \<open>-1\<close>.\<close>

fun findIndex :: "('a \<Rightarrow> bool) \<Rightarrow> 'a list \<Rightarrow> int" where
  "findIndex p [] = - 1"
| "findIndex p (x # xs) =
     (if p x then 0 else (let i = findIndex p xs in if i = - 1 then - 1 else i + 1))"

text \<open>
  \<open>xs.sort(cmp)\<close> is stable; for a comparator that orders consistently it is the stable
  insertion sort below (a negative or zero \<open>cmp a b\<close> keeps \<open>a\<close> before \<open>b\<close>).
\<close>

fun insertBy :: "('a \<Rightarrow> 'a \<Rightarrow> rat) \<Rightarrow> 'a \<Rightarrow> 'a list \<Rightarrow> 'a list" where
  "insertBy cmp x [] = [x]"
| "insertBy cmp x (y # ys) = (if cmp x y \<le> 0 then x # y # ys else y # insertBy cmp x ys)"

definition sortBy :: "('a \<Rightarrow> 'a \<Rightarrow> rat) \<Rightarrow> 'a list \<Rightarrow> 'a list" where
  "sortBy cmp xs = foldr (insertBy cmp) xs []"

text \<open>Decimal text of a number, as template literals print it.\<close>

fun showNat :: "nat \<Rightarrow> string" where
  "showNat n =
     (if n < 10 then [''0123456789'' ! n] else showNat (n div 10) @ [''0123456789'' ! (n mod 10)])"

definition showInt :: "int \<Rightarrow> string" where
  "showInt i = (if i < 0 then CHR ''-'' # showNat (nat (- i)) else showNat (nat i))"

datatype place = City | Country | Region

datatype origin = Local | Api | Cache

datatype answer_source = FromLocal | FromApi | FromCache | Mixed

record CityResult =
  name :: string
  country :: string
  displayName :: string
  place_type :: place
  popularity :: int

record EnhancedCityResult = CityResult +
  coordinates :: "(rat \<times> rat) option"
  source :: origin
  confidence :: rat
  stamp :: "int option"

text \<open>
  The field \<open>stamp\<close> is \<open>EnhancedCityResult.timestamp\<close>; in a cache entry \<open>data\<close> holds
  the results and \<open>expiry\<close> is the entry's \<open>timestamp\<close>, the time after which it is stale.
\<close>

record CacheEntry =
  data :: "EnhancedCityResult list"
  expiry :: int

record AutocompleteOptions =
  maxResults :: int
  useExternalAPI :: bool
  cacheTimeout :: int
  fallbackToLocal :: bool
  minQueryLength :: int

definition defaultOptions :: AutocompleteOptions where
  "defaultOptions = \<lparr>maxResults = 8, useExternalAPI = True, cacheTimeout = 5 * 60 * 1000,
     fallbackToLocal = True, minQueryLength = 2\<rparr>"

record AutocompleteError =
  err_message :: string
  err_code :: string
  err_retryable :: bool
  err_retryAfter :: "int option"

record AutocompleteAnswer =
  results :: "EnhancedCityResult list"
  answer_source :: answer_source
  error :: "AutocompleteError option"
  fromCache :: bool

subsection \<open>CacheManager\<close>

definition cache_set ::
  "int \<Rightarrow> string \<Rightarrow> EnhancedCityResult list \<Rightarrow> int \<Rightarrow> (string \<rightharpoonup> CacheEntry)
     \<Rightarrow> (string \<rightharpoonup> CacheEntry)" where
  "cache_set now key items ttl c =
     c(key \<mapsto> \<lparr>data = map (\<lambda>item. item\<lparr>stamp := Some now\<rparr>) items, expiry = now + ttl\<rparr>)"

definition cache_get ::
  "int \<Rightarrow> string \<Rightarrow> (string \<rightharpoonup> CacheEntry)
     \<Rightarrow> EnhancedCityResult list option \<times> (string \<rightharpoonup> CacheEntry)" where
  "cache_get now key c =
     (case c key of
        None \<Rightarrow> (None, c)
      | Some entry \<Rightarrow>
          if now > expiry entry then (None, c(key := None)) else (Some (data entry), c))"

definition cache_clear :: "(string \<rightharpoonup> CacheEntry) \<Rightarrow> (string \<rightharpoonup> CacheEntry)" where
  "cache_clear c = Map.empty"

definition cache_cleanup :: "int \<Rightarrow> (string \<rightharpoonup> CacheEntry) \<Rightarrow> (string \<rightharpoonup> CacheEntry)" where
  "cache_cleanup now c =
     (\<lambda>key. case c key of
               None \<Rightarrow> None
             | Some entry \<Rightarrow> if now > expiry entry then None else Some entry)"

subsection \<open>RateLimiter of the external lookup\<close>

definition canMakeRequest ::
  "int \<Rightarrow> string \<Rightarrow> (string \<rightharpoonup> int list) \<Rightarrow> bool \<times> (string \<rightharpoonup> int list)" where
  "canMakeRequest now key reqs =
     (let requests = (case reqs key of None \<Rightarrow> [] | Some r \<Rightarrow> r);
          validRequests = filter (\<lambda>t. now - t < 60 * 1000) requests
      in if length validRequests \<ge> 20 then (False, reqs)
         else (True, reqs(key \<mapsto> validRequests @ [now])))"

definition getRetryAfter :: "int \<Rightarrow> string \<Rightarrow> (string \<rightharpoonup> int list) \<Rightarrow> int" where
  "getRetryAfter now key reqs =
     (case (case reqs key of None \<Rightarrow> [] | Some r \<Rightarrow> r) of
        [] \<Rightarrow> 0
      | t # ts \<Rightarrow>
          let oldestRequest = fold min ts t;
              retryAfter = 60 * 1000 - (now - oldestRequest)
          in max 0 \<lceil>fl (of_int retryAfter / 1000)\<rceil>)"

subsection \<open>fetchFromExternalAPI\<close>

text \<open>
  What the network did with the one \<open>fetch\<close> of a lookup: a response that is not ok, with
  its status; an ok response, given as the list of results the service maps its body to
  (source \<open>Api\<close>), before truncation; an abort by the 8 second timer; another \<open>Error\<close>;
  or a thrown value that is no \<open>Error\<close>.
\<close>

datatype fetched =
  NotOk nat
  | Body "EnhancedCityResult list"
  | AbortError
  | OtherError
  | NonError

definition fetchFromExternalAPI ::
  "int \<Rightarrow> AutocompleteOptions \<Rightarrow> fetched \<Rightarrow> (string \<rightharpoonup> int list)
     \<Rightarrow> (AutocompleteError + EnhancedCityResult list) \<times> (string \<rightharpoonup> int list)" where
  "fetchFromExternalAPI now options net reqs =
     (let (ok, reqs1) = canMakeRequest now ''default'' reqs in
      if \<not> ok
      then (Inl \<lparr>err_message = ''Rate limit exceeded'', err_code = ''RATE_LIMIT_EXCEEDED'',
                 err_retryable = True,
                 err_retryAfter = Some (getRetryAfter now ''default'' reqs1)\<rparr>, reqs1)
      else
        (case net of
           NotOk status \<Rightarrow>
             if status = 429
             then Inl \<lparr>err_message = ''API rate limit exceeded'', err_code = ''API_RATE_LIMIT'',
                       err_retryable = True, err_retryAfter = Some 60\<rparr>
             else Inl \<lparr>err_message = ''API request failed: '' @ showNat status,
                       err_code = ''API_ERROR'', err_retryable = (status \<ge> 500),
                       err_retryAfter = None\<rparr>
         | Body items \<Rightarrow> Inr (slice0 (maxResults options) items)
         | AbortError \<Rightarrow>
             Inl \<lparr>err_message = ''Request timeout'', err_code = ''TIMEOUT'',
                  err_retryable = True, err_retryAfter = None\<rparr>
         | OtherError \<Rightarrow>
             Inl \<lparr>err_message = ''Network error'', err_code = ''NETWORK_ERROR'',
                  err_retryable = True, err_retryAfter = None\<rparr>
         | NonError \<Rightarrow>
             Inl \<lparr>err_message = ''Unknown error occurred'', err_code = ''UNKNOWN_ERROR'',
                  err_retryable = False, err_retryAfter = None\<rparr>,
         reqs1))"

subsection \<open>deduplicateResults\<close>

definition resultKey :: "StringOps \<Rightarrow> EnhancedCityResult \<Rightarrow> string" where
  "resultKey js r = toLowerCase js (name r) @ ''-'' @ toLowerCase js (country r)"

fun dedupLoop ::
  "StringOps \<Rightarrow> EnhancedCityResult list \<Rightarrow> string set \<Rightarrow> EnhancedCityResult list
     \<Rightarrow> EnhancedCityResult list" where
  "dedupLoop js [] seen deduplicated = deduplicated"
| "dedupLoop js (result # rest) seen deduplicated =
     (let key = resultKey js result in
      if key \<notin> seen then dedupLoop js rest (insert key seen) (deduplicated @ [result])
      else
        let existingIndex = findIndex (\<lambda>r. resultKey js r = key) deduplicated in
        if existingIndex \<noteq> - 1
           \<and> confidence result > confidence (deduplicated ! nat existingIndex)
        then dedupLoop js rest seen (deduplicated[nat existingIndex := result])
        else dedupLoop js rest seen deduplicated)"

definition deduplicateResults ::
  "StringOps \<Rightarrow> EnhancedCityResult list \<Rightarrow> EnhancedCityResult list" where
  "deduplicateResults js rs = dedupLoop js rs {} []"

subsection \<open>getAutocompleteResults\<close>

definition enhance :: "origin \<Rightarrow> rat \<Rightarrow> CityResult \<Rightarrow> EnhancedCityResult" where
  "enhance src conf item =
     \<lparr>name = name item, country = country item, displayName = displayName item,
      place_type = place_type item, popularity = popularity item,
      coordinates = None, source = src, confidence = conf, stamp = None\<rparr>"

definition compareResults :: "EnhancedCityResult \<Rightarrow> EnhancedCityResult \<Rightarrow> rat" where
  "compareResults x y =
     (if source x = Local \<and> source y = Api \<and> confidence x = 100 then - 1
      else if source y = Local \<and> source x = Api \<and> confidence y = 100 then 1
      else
        let confidenceDiff = fl (confidence y - confidence x) in
        if confidenceDiff \<noteq> 0 then confidenceDiff
        else fl (of_int (popularity y) - of_int (popularity x)))"

record AutocompleteService =
  cache :: "string \<rightharpoonup> CacheEntry"
  requests :: "string \<rightharpoonup> int list"

text \<open>
  The local catalogue of \<open>cityService\<close> enters through its two lookups,
  \<open>searchDestinations query maxResults\<close> and \<open>getInitialSuggestions limit\<close>; \<open>net\<close> is
  what the network does if the external lookup is made.  A thrown error is \<open>Inl\<close>.
\<close>

definition getAutocompleteResults ::
  "StringOps \<Rightarrow> (string \<Rightarrow> int \<Rightarrow> CityResult list) \<Rightarrow> (int \<Rightarrow> CityResult list) \<Rightarrow> fetched
     \<Rightarrow> int \<Rightarrow> string \<Rightarrow> AutocompleteOptions \<Rightarrow> AutocompleteService
     \<Rightarrow> (AutocompleteError + AutocompleteAnswer) \<times> AutocompleteService" where
  "getAutocompleteResults js searchDestinations getInitialSuggestions net now query options s =
     (if query = [] \<or> int (strLength js (trim js query)) < minQueryLength options
      then (Inr \<lparr>results = map (enhance Local 100) (getInitialSuggestions (maxResults options)),
                 answer_source = FromLocal, error = None, fromCache = False\<rparr>, s)
      else
        let sanitizedQuery = toLowerCase js (trim js query);
            cacheKey = ''autocomplete:'' @ sanitizedQuery @ '':'' @ showInt (maxResults options);
            (cachedResults, c1) = cache_get now cacheKey (cache s);
            s1 = s\<lparr>cache := c1\<rparr>
        in case cachedResults of
             Some cached \<Rightarrow>
               (Inr \<lparr>results = cached, answer_source = FromCache, error = None,
                     fromCache = True\<rparr>, s1)
           | None \<Rightarrow>
               let localResults =
                     map (enhance Local 90) (searchDestinations query (maxResults options))
               in if \<not> useExternalAPI options
                     \<or> int (length localResults) \<ge> maxResults options
                  then
                    let enhancedLocalResults = slice0 (maxResults options) localResults in
                    (Inr \<lparr>results = enhancedLocalResults, answer_source = FromLocal,
                          error = None, fromCache = False\<rparr>,
                     s1\<lparr>cache := cache_set now cacheKey enhancedLocalResults
                                    (cacheTimeout options) (cache s1)\<rparr>)
                  else
                    let (fetched, reqs1) = fetchFromExternalAPI now options net (requests s1);
                        s2 = s1\<lparr>requests := reqs1\<rparr>
                    in case fetched of
                         Inr apiResults \<Rightarrow>
                           let allResults = localResults @ apiResults;
                               deduplicatedResults = deduplicateResults js allResults;
                               sortedResults = slice0 (maxResults options)
                                 (sortBy compareResults deduplicatedResults)
                           in (Inr \<lparr>results = sortedResults,
                                     answer_source =
                                       (if length localResults > 0 then Mixed else FromApi),
                                     error = None, fromCache = False\<rparr>,
                               s2\<lparr>cache := cache_set now cacheKey sortedResults
                                              (cacheTimeout options) (cache s2)\<rparr>)
                       | Inl err \<Rightarrow>
                           if fallbackToLocal options \<and> length localResults > 0
                           then
                             let enhancedLocalResults =
                                   slice0 (maxResults options) localResults in
                             (Inr \<lparr>results = enhancedLocalResults, answer_source = FromLocal,
                                   error = Some err, fromCache = False\<rparr>,
                              s2\<lparr>cache := cache_set now cacheKey enhancedLocalResults
                                             (cacheTimeout options) (cache s2)\<rparr>)
                           else (Inl err, s2))"

section \<open>The AI request path (services/geminiService.ts)\<close>

text \<open>
  A thrown JavaScript value is an \<open>APIError\<close> of this module, a \<open>SyntaxError\<close>, another
  \<open>Error\<close> with its message, or a value that is no \<open>Error\<close>.
\<close>

record APIError =
  message :: string
  statusCode :: "int option"
  api_retryAfter :: "int option"
  isRateLimited :: "bool option"

datatype thrown =
  ThrownAPIError APIError
  | ThrownSyntaxError
  | ThrownError string
  | ThrownOther

text \<open>\<open>s.includes(sub)\<close>\<close>

fun includes_str :: "string \<Rightarrow> string \<Rightarrow> bool" where
  "includes_str [] sub = (sub = [])"
| "includes_str (c # cs) sub = (take (length sub) (c # cs) = sub \<or> includes_str cs sub)"

text \<open>
  \<open>retryWithBackoff\<close>: the operation is run for attempt \<open>0\<close> to \<open>maxRetries\<close>; it acts
  on the rate-limit service, and \<open>clock i\<close> is the clock reading while attempt \<open>i\<close> is
  handled.  The waiting between attempts only moves the clock.  Beside the outcome the
  model returns how many times the operation was run.  The \<open>throw\<close> after the loop is
  reached only when the loop body never runs.
\<close>

definition notRetried :: "thrown \<Rightarrow> bool" where
  "notRetried e =
     (case e of
        ThrownAPIError x \<Rightarrow>
          isRateLimited x = Some True
          \<or> (case statusCode x of
                None \<Rightarrow> False
              | Some c \<Rightarrow> c \<noteq> 0 \<and> c \<ge> 400 \<and> c < 500)
      | _ \<Rightarrow> False)"

function retryFrom ::
  "(nat \<Rightarrow> RateLimitService \<Rightarrow> (thrown + 'a) \<times> RateLimitService) \<Rightarrow> (nat \<Rightarrow> int) \<Rightarrow> nat
     \<Rightarrow> nat \<Rightarrow> RateLimitService \<Rightarrow> (thrown + 'a) \<times> nat \<times> RateLimitService" where
  "retryFrom operation clock maxRetries attempt s =
     (if attempt \<le> maxRetries
      then
        (case operation attempt s of
           (Inr v, s1) \<Rightarrow> (Inr v, Suc attempt, s1)
         | (Inl e, s1) \<Rightarrow>
             if notRetried e then (Inl e, Suc attempt, s1)
             else if attempt = maxRetries
             then (Inl e, Suc attempt, recordFailure (clock attempt) s1)
             else retryFrom operation clock maxRetries (Suc attempt) s1)
      else (Inl ThrownOther, attempt, s))"
  by pat_completeness auto
termination
  by (relation "measure (\<lambda>(operation, clock, maxRetries, attempt, s). Suc maxRetries - attempt)")
    auto

definition retryWithBackoff ::
  "(nat \<Rightarrow> RateLimitService \<Rightarrow> (thrown + 'a) \<times> RateLimitService) \<Rightarrow> (nat \<Rightarrow> int) \<Rightarrow> nat
     \<Rightarrow> RateLimitService \<Rightarrow> (thrown + 'a) \<times> nat \<times> RateLimitService" where
  "retryWithBackoff operation clock maxRetries s = retryFrom operation clock maxRetries 0 s"

text \<open>
  The answer's text with a leading \<open>```json\<close> fence (and the white space after it) and a
  trailing \<open>```\<close> fence removed: \<open>jsonText.replace(/^```json\s*|```$/g, '')\<close>.
\<close>

definition fence :: string where
  "fence = [CHR 0x60, CHR 0x60, CHR 0x60]"

definition stripFences :: "StringOps \<Rightarrow> string \<Rightarrow> string" where
  "stripFences js t =
     (let opening = fence @ ''json'';
          t1 = (if take (length opening) t = opening
                then trimStart js (drop (length opening) t) else t)
      in if length t1 \<ge> 3 \<and> drop (length t1 - 3) t1 = fence
         then take (length t1 - 3) t1 else t1)"

definition msg_empty :: string where
  "msg_empty = ''Il modello AI ha restituito una risposta vuota. Riprova.''"

definition msg_malformed :: string where
  "msg_malformed = ''Il modello AI ha restituito una risposta malformata. Riprova.''"

definition msg_quota :: string where
  "msg_quota = ''Limite di richieste API raggiunto. Riprova tra qualche minuto.''"

definition msg_unreachable :: string where
  "msg_unreachable =
     ''Non '' @ [CHR 0xC3, CHR 0xA8] @ '' stato possibile contattare il servizio AI. Riprova pi''
       @ [CHR 0xC3, CHR 0xB9] @ '' tardi.''"

datatype 'j analysis = MockData | Parsed 'j

text \<open>
  The operation handed to \<open>retryWithBackoff\<close>: one \<open>generateContent\<close> call, whose
  outcome at attempt \<open>i\<close> is \<open>generate i\<close> (the text of the response, which may be
  missing, or the thrown value), followed on success by the call of \<open>recordFailure\<close>
  that the source makes there.
\<close>

definition generateOperation ::
  "(nat \<Rightarrow> thrown + string option) \<Rightarrow> (nat \<Rightarrow> int) \<Rightarrow> nat \<Rightarrow> RateLimitService
     \<Rightarrow> (thrown + string option) \<times> RateLimitService" where
  "generateOperation generate clock i s =
     (case generate i of
        Inl e \<Rightarrow> (Inl e, s)
      | Inr response \<Rightarrow> (Inr response, recordFailure (clock i) s))"

text \<open>The \<open>catch\<close> block: the failure is recorded, then the error is translated.\<close>

definition handleError :: "int \<Rightarrow> thrown \<Rightarrow> RateLimitService \<Rightarrow> APIError \<times> RateLimitService" where
  "handleError now e s =
     (let s1 = recordFailure now s in
      case e of
        ThrownAPIError x \<Rightarrow> (x, s1)
      | ThrownSyntaxError \<Rightarrow>
          (\<lparr>message = msg_malformed, statusCode = Some 422, api_retryAfter = None,
            isRateLimited = None\<rparr>, s1)
      | _ \<Rightarrow>
          let msg = (case e of ThrownError m \<Rightarrow> m | _ \<Rightarrow> ''Errore sconosciuto'') in
          if includes_str msg ''quota'' \<or> includes_str msg ''rate'' \<or> includes_str msg ''limit''
          then (\<lparr>message = msg_quota, statusCode = Some 429, api_retryAfter = Some 300,
                 isRateLimited = Some True\<rparr>, s1)
          else (\<lparr>message = msg_unreachable, statusCode = Some 503, api_retryAfter = None,
                 isRateLimited = None\<rparr>, s1))"

text \<open>
  \<open>getTravelAnalysis\<close> (and \<open>getPackingList\<close>, which has the same control flow).
  \<open>hasKey\<close> says whether an API key is configured, \<open>requestSize\<close> is the length of the
  serialised inputs, \<open>jsonParse\<close> is \<open>JSON.parse\<close> with \<open>None\<close> for a \<open>SyntaxError\<close>,
  \<open>now\<close> and \<open>caught\<close> are the clock readings at the admission check and in the
  \<open>catch\<close> block.  The second component of the result counts the \<open>generateContent\<close>
  calls that were made.
\<close>

definition getTravelAnalysis ::
  "StringOps \<Rightarrow> bool \<Rightarrow> (string \<Rightarrow> 'j option) \<Rightarrow> (nat \<Rightarrow> thrown + string option)
     \<Rightarrow> (nat \<Rightarrow> int) \<Rightarrow> int \<Rightarrow> int \<Rightarrow> string \<Rightarrow> int \<Rightarrow> RateLimitService
     \<Rightarrow> (APIError + 'j analysis) \<times> nat \<times> RateLimitService" where
  "getTravelAnalysis js hasKey jsonParse generate clock caught now a requestSize s =
     (if \<not> hasKey then (Inr MockData, 0, s)
      else
        let (rateLimitCheck, s1) = checkRateLimit now a requestSize ''gemini-api'' s in
        if \<not> allowed rateLimitCheck
        then (Inl \<lparr>message = (case reason rateLimitCheck of
                                  None \<Rightarrow> ''Rate limit exceeded''
                                | Some r \<Rightarrow> if r = [] then ''Rate limit exceeded'' else r),
                    statusCode = Some 429, api_retryAfter = retryAfter rateLimitCheck,
                    isRateLimited = Some True\<rparr>, 0, s1)
        else
          let (outcome, calls, s2) =
                retryWithBackoff (generateOperation generate clock) clock 3 s1;
              tried =
                (case outcome of
                   Inl e \<Rightarrow> Inl e
                 | Inr response \<Rightarrow>
                     (case map_option (trim js) response of
                        None \<Rightarrow> Inl (ThrownError msg_empty)
                      | Some jsonText \<Rightarrow>
                          if jsonText = [] then Inl (ThrownError msg_empty)
                          else (case jsonParse (stripFences js jsonText) of
                                  None \<Rightarrow> Inl ThrownSyntaxError
                                | Some parsedResponse \<Rightarrow> Inr (Parsed parsedResponse))))
          in case tried of
               Inr result \<Rightarrow> (Inr result, calls, s2)
             | Inl e \<Rightarrow> (let (err, s3) = handleError caught e s2 in (Inl err, calls, s3)))"

section \<open>Notions and sample data for the statements\<close>

text \<open>Sample results, a sample catalogue entry and sample services.\<close>

definition romaCity :: CityResult where
  "romaCity = \<lparr>name = ''Roma'', country = ''Italia'', displayName = ''Roma, Italia'',
     place_type = City, popularity = 10\<rparr>"

definition romaLocal :: EnhancedCityResult where
  "romaLocal = \<lparr>name = ''Roma'', country = ''Italia'', displayName = ''Roma, Italia'',
     place_type = City, popularity = 10, coordinates = None, source = Local, confidence = 90,
     stamp = None\<rparr>"




definition emptyService :: AutocompleteService where
  "emptyService = \<lparr>cache = Map.empty, requests = Map.empty\<rparr>"

definition nearlyOpen :: RateLimitService where
  "nearlyOpen = initialService\<lparr>circuitBreaker :=
     \<lparr>failures = 4, lastFailureTime = 0, state = CLOSED\<rparr>\<rparr>"

text \<open>A \<open>JSON.parse\<close> that accepts the empty object only.\<close>

definition parseBraces :: "string \<Rightarrow> unit option" where
  "parseBraces t = (if t = ''{}'' then Some () else None)"

section \<open>Properties of the rounding\<close>

lemma roundEven_nearest: "\<bar>q - of_int (roundEven q)\<bar> \<le> \<bar>q - of_int j\<bar>"
proof -
  let ?f = "\<lfloor>q\<rfloor>"
  let ?d = "q - of_int ?f"
  have d: "0 \<le> ?d" "?d < 1" by linarith+
  have lo: "\<bar>q - of_int j\<bar> \<ge> ?d" if "j \<le> ?f"
  proof -
    have "(of_int j :: rat) \<le> of_int ?f" using that by simp
    then show ?thesis by linarith
  qed
  have hi: "\<bar>q - of_int j\<bar> \<ge> 1 - ?d" if "j \<ge> ?f + 1"
  proof -
    have "(of_int j :: rat) \<ge> of_int (?f + 1)" using that by (simp only: of_int_le_iff)
    then show ?thesis by simp
  qed
  have cases: "j \<le> ?f \<or> j \<ge> ?f + 1" by linarith
  have r: "\<bar>q - of_int (roundEven q)\<bar> \<le> ?d \<and> \<bar>q - of_int (roundEven q)\<bar> \<le> 1 - ?d"
    using d by (auto simp: roundEven_def Let_def)
  show ?thesis using cases lo hi r by linarith
qed

lemma two_powi_pos [simp]: "(0::rat) < 2 powi k" by simp

lemma two_powi_less_iff: "(2::rat) powi m < 2 powi n \<longleftrightarrow> m < n"
proof
  assume h: "(2::rat) powi m < 2 powi n"
  show "m < n"
  proof (rule ccontr)
    assume "\<not> m < n"
    then have "n \<le> m" by simp
    then have "(2::rat) powi n \<le> 2 powi m" by (intro power_int_increasing) simp_all
    with h show False by simp
  qed
next
  assume "m < n"
  then show "(2::rat) powi m < 2 powi n" by (intro power_int_strict_increasing) simp_all
qed

lemma two_powi_le_iff: "(2::rat) powi m \<le> 2 powi n \<longleftrightarrow> m \<le> n"
  using two_powi_less_iff [of n m] by (simp add: not_less [symmetric])

lemma two_powi_split: "(2::rat) powi (m + n) = 2 powi m * 2 powi n"
  by (rule power_int_add) simp

lemma two_powi_diff: "(2::rat) powi (m - n) = 2 powi m / 2 powi n"
  by (rule power_int_diff) simp

lemma bitlen_rat_bounds:
  assumes "p > 0"
  shows "(2::rat) powi (bitlen p - 1) \<le> of_int p" "of_int p < (2::rat) powi bitlen p"
proof -
  from bitlen_bounds [OF assms] have b: "2 ^ nat (bitlen p - 1) \<le> p" "p < 2 ^ nat (bitlen p)"
    by simp_all
  have ge1: "bitlen p \<ge> 1" using assms by (simp add: bitlen_alt_def)
  have "(of_int (2 ^ nat (bitlen p - 1)) :: rat) \<le> of_int p" using b(1) by (simp only: of_int_le_iff)
  then show "(2::rat) powi (bitlen p - 1) \<le> of_int p" using ge1 by (simp add: power_int_def)
  have "(of_int p :: rat) < of_int (2 ^ nat (bitlen p))" using b(2) by (simp only: of_int_less_iff)
  then show "of_int p < (2::rat) powi bitlen p" using ge1 by (simp add: power_int_def)
qed

lemma ilog2_bounds:
  assumes "x > 0"
  shows "2 powi ilog2 x \<le> x" "x < 2 powi (ilog2 x + 1)"
proof -
  obtain p q where pq: "quotient_of x = (p, q)" by (cases "quotient_of x")
  then have q: "q > 0" and x: "x = of_int p / of_int q"
    by (simp_all add: quotient_of_denom_pos quotient_of_div)
  have p: "p > 0" using assms q x by (simp add: zero_less_divide_iff)
  let ?k = "bitlen p - bitlen q"
  note bp = bitlen_rat_bounds [OF p] and bq = bitlen_rat_bounds [OF q]
  have qpos: "(0::rat) < of_int q" using q by simp
  have up: "x < 2 powi (?k + 1)"
  proof -
    have "of_int p < (2::rat) powi bitlen p" by (rule bp(2))
    also have "\<dots> = 2 powi (?k + 1) * 2 powi (bitlen q - 1)"
      by (simp add: two_powi_split [symmetric])
    also have "\<dots> \<le> 2 powi (?k + 1) * of_int q"
      using bq(1) by (intro mult_left_mono) simp_all
    finally show ?thesis using qpos unfolding x by (simp add: pos_divide_less_eq)
  qed
  have lo: "2 powi (?k - 1) \<le> x"
  proof -
    have "2 powi (?k - 1) * of_int q \<le> 2 powi (?k - 1) * (2::rat) powi bitlen q"
      using bq(2) by (intro mult_left_mono) simp_all
    also have "\<dots> = 2 powi (bitlen p - 1)" by (simp add: two_powi_split [symmetric])
    also have "\<dots> \<le> of_int p" by (rule bp(1))
    finally show ?thesis using qpos unfolding x by (simp add: pos_le_divide_eq)
  qed
  show "2 powi ilog2 x \<le> x" using lo by (simp add: ilog2_def pq Let_def)
  show "x < 2 powi (ilog2 x + 1)" using up by (auto simp add: ilog2_def pq Let_def not_le)
qed

lemma doublesI: "\<bar>m\<bar> < 2 ^ 53 \<Longrightarrow> - 1074 \<le> k \<Longrightarrow> of_int m * 2 powi k \<in> doubles"
  unfolding doubles_def by blast

lemma doubles_zero [simp]: "0 \<in> doubles"
  using doublesI [of 0 0] by simp

lemma doubles_multiple:
  assumes f: "f \<in> doubles" and e: "- 1022 \<le> e" and big: "e = - 1022 \<or> 2 powi e \<le> \<bar>f\<bar>"
  shows "\<exists>j. f = of_int j * 2 powi (e - 52)"
proof -
  from f obtain m k where m: "\<bar>m\<bar> < 2 ^ 53" and k: "- 1074 \<le> k" and fm: "f = of_int m * 2 powi k"
    by (auto simp: doubles_def)
  have ke: "e - 52 \<le> k"
  proof (cases "e = - 1022")
    case True
    then show ?thesis using k by simp
  next
    case False
    with big have "2 powi e \<le> \<bar>f\<bar>" by simp
    also have "\<bar>f\<bar> = \<bar>of_int m\<bar> * 2 powi k" unfolding fm by (simp add: abs_mult)
    also have "\<dots> < 2 powi 53 * 2 powi k"
    proof -
      have "(of_int \<bar>m\<bar> :: rat) < of_int (2 ^ 53)" using m by (simp only: of_int_less_iff)
      then have "\<bar>of_int m :: rat\<bar> < 2 powi 53" by simp
      then show ?thesis by (intro mult_strict_right_mono) simp_all
    qed
    also have "\<dots> = 2 powi (53 + k)" by (simp only: two_powi_split)
    finally have "e < 53 + k" by (simp only: two_powi_less_iff)
    then show ?thesis by simp
  qed
  define d where "d = nat (k - (e - 52))"
  have kd: "k = int d + (e - 52)" using ke by (simp add: d_def)
  have "f = of_int (m * 2 ^ d) * 2 powi (e - 52)"
    unfolding fm kd two_powi_split by simp
  then show ?thesis by blast
qed

lemma fl_nonzero:
  assumes "x \<noteq> 0"
  shows "fl x = of_int (roundEven (x / 2 powi (max (ilog2 \<bar>x\<bar>) (- 1022) - 52)))
                 * 2 powi (max (ilog2 \<bar>x\<bar>) (- 1022) - 52)"
  using assms by (simp add: fl_def Let_def)

lemma fl_near_grid:
  assumes "x \<noteq> 0"
  shows "\<bar>x - fl x\<bar> \<le> \<bar>x - of_int j * 2 powi (max (ilog2 \<bar>x\<bar>) (- 1022) - 52)\<bar>"
proof -
  let ?u = "(2::rat) powi (max (ilog2 \<bar>x\<bar>) (- 1022) - 52)"
  have u: "0 < ?u" by simp
  have eq: "\<bar>x - of_int i * ?u\<bar> = ?u * \<bar>x / ?u - of_int i\<bar>" for i
  proof -
    have "x - of_int i * ?u = ?u * (x / ?u - of_int i)" by (simp add: field_simps)
    then show ?thesis using u by (simp only: abs_mult abs_of_pos)
  qed
  have "?u * \<bar>x / ?u - of_int (roundEven (x / ?u))\<bar> \<le> ?u * \<bar>x / ?u - of_int j\<bar>"
    by (intro mult_left_mono roundEven_nearest) simp
  then show ?thesis unfolding fl_nonzero [OF assms] eq .
qed

lemma fl_nearest:
  assumes f: "f \<in> doubles"
  shows "\<bar>x - fl x\<bar> \<le> \<bar>x - f\<bar>"
proof (cases "x = 0")
  case True
  then show ?thesis by (simp add: fl_def)
next
  case nz: False
  let ?e = "max (ilog2 \<bar>x\<bar>) (- 1022)"
  let ?u = "(2::rat) powi (?e - 52)"
  have ax: "0 < \<bar>x\<bar>" using nz by simp
  note b = ilog2_bounds [OF ax]
  show ?thesis
  proof (cases "?e = - 1022 \<or> 2 powi ?e \<le> \<bar>f\<bar>")
    case True
    from doubles_multiple [OF f _ True] obtain j where "f = of_int j * ?u" by auto
    then show ?thesis using fl_near_grid [OF nz, of j] by simp
  next
    case False
    then have e: "?e = ilog2 \<bar>x\<bar>" and small: "\<bar>f\<bar> < 2 powi ?e" by auto
    have B: "2 powi ?e = of_int (2 ^ 52) * ?u"
      by (simp add: two_powi_diff)
    have big: "2 powi ?e \<le> \<bar>x\<bar>" using b(1) e by simp
    show ?thesis
    proof (cases "x > 0")
      case True
      have "\<bar>x - fl x\<bar> \<le> \<bar>x - 2 powi ?e\<bar>"
        using fl_near_grid [OF nz, of "2 ^ 52"] unfolding B .
      then show ?thesis using big small True by linarith
    next
      case False
      have "\<bar>x - fl x\<bar> \<le> \<bar>x - of_int (- (2 ^ 52)) * ?u\<bar>"
        by (rule fl_near_grid [OF nz])
      then have "\<bar>x - fl x\<bar> \<le> \<bar>x + 2 powi ?e\<bar>" unfolding B by simp
      then show ?thesis using big small False nz by linarith
    qed
  qed
qed

lemma roundEven_range:
  assumes "\<bar>q\<bar> < of_int n"
  shows "\<bar>roundEven q\<bar> \<le> n"
proof -
  have "\<lfloor>q\<rfloor> < n" using assms by (simp add: floor_less_iff abs_less_iff)
  moreover have "- n \<le> \<lfloor>q\<rfloor>" using assms by (simp add: le_floor_iff abs_less_iff)
  moreover have "roundEven q = \<lfloor>q\<rfloor> \<or> roundEven q = \<lfloor>q\<rfloor> + 1"
    by (simp add: roundEven_def Let_def)
  ultimately show ?thesis by linarith
qed

lemma fl_doubles [simp]: "fl x \<in> doubles"
proof (cases "x = 0")
  case True
  then show ?thesis by (simp add: fl_def)
next
  case nz: False
  let ?e = "max (ilog2 \<bar>x\<bar>) (- 1022)"
  let ?u = "(2::rat) powi (?e - 52)"
  let ?m = "roundEven (x / ?u)"
  have ax: "0 < \<bar>x\<bar>" using nz by simp
  note b = ilog2_bounds [OF ax]
  have "\<bar>x\<bar> < 2 powi (ilog2 \<bar>x\<bar> + 1)" by (rule b(2))
  also have "\<dots> \<le> 2 powi (?e + 1)" by (simp add: two_powi_le_iff)
  also have "\<dots> = 2 powi 53 * ?u"
  proof -
    have "?e + 1 = 53 + (?e - 52)" by simp
    then show ?thesis by (simp only: two_powi_split)
  qed
  finally have "\<bar>x\<bar> / ?u < 2 powi 53" by (simp add: pos_divide_less_eq)
  then have "\<bar>x / ?u\<bar> < of_int (2 ^ 53)" by simp
  then have m: "\<bar>?m\<bar> \<le> 2 ^ 53" by (rule roundEven_range)
  have flx: "fl x = of_int ?m * ?u" by (rule fl_nonzero [OF nz])
  show ?thesis
  proof (cases "\<bar>?m\<bar> = 2 ^ 53")
    case False
    with m have "\<bar>?m\<bar> < 2 ^ 53" by simp
    moreover have "- 1074 \<le> ?e - 52" by simp
    ultimately show ?thesis unfolding flx doubles_def by blast
  next
    case True
    then have "?m = 2 ^ 53 \<or> ?m = - (2 ^ 53)" by linarith
    then have "fl x = of_int (2 ^ 52) * 2 powi (?e - 51) \<or> fl x = of_int (- (2 ^ 52)) * 2 powi (?e - 51)"
    proof
      assume h: "?m = 2 ^ 53"
      have "(2::rat) powi (?e - 51) = 2 * ?u" by (simp add: two_powi_diff)
      then show ?thesis unfolding flx h by simp
    next
      assume h: "?m = - (2 ^ 53)"
      have "(2::rat) powi (?e - 51) = 2 * ?u" by (simp add: two_powi_diff)
      then show ?thesis unfolding flx h by simp
    qed
    moreover have "\<bar>(2::int) ^ 52\<bar> < 2 ^ 53" "\<bar>- ((2::int) ^ 52)\<bar> < 2 ^ 53" by simp_all
    moreover have "- 1074 \<le> ?e - 51" by simp
    ultimately show ?thesis unfolding doubles_def by blast
  qed
qed

lemma fl_id: "f \<in> doubles \<Longrightarrow> fl f = f"
  using fl_nearest [of f f] by simp

lemma fl_mono: "x \<le> y \<Longrightarrow> fl x \<le> fl y"
proof (rule ccontr)
  assume xy: "x \<le> y" and "\<not> fl x \<le> fl y"
  then have lt: "fl y < fl x" by simp
  have 1: "\<bar>x - fl x\<bar> \<le> \<bar>x - fl y\<bar>" by (rule fl_nearest) simp
  have 2: "\<bar>y - fl y\<bar> \<le> \<bar>y - fl x\<bar>" by (rule fl_nearest) simp
  from 1 lt have "2 * x \<ge> fl x + fl y" by linarith
  moreover from 2 lt have "2 * y \<le> fl x + fl y" by linarith
  ultimately have "x = y" using xy by linarith
  then show False using lt by simp
qed

lemma doubles_of_int: "\<bar>n\<bar> < 2 ^ 53 \<Longrightarrow> of_int n \<in> doubles"
  using doublesI [of n 0] by simp

lemma fl_of_int: "\<bar>n\<bar> < 2 ^ 53 \<Longrightarrow> fl (of_int n) = of_int n"
  by (rule fl_id) (rule doubles_of_int)

lemma doubles_minus_one:
  assumes x: "x \<in> doubles" and ge: "1 \<le> x" and le: "x \<le> 2 ^ 53"
  shows "x - 1 \<in> doubles"
proof -
  from x obtain m k where m: "\<bar>m\<bar> < 2 ^ 53" and k: "- 1074 \<le> k" and xm: "x = of_int m * 2 powi k"
    by (auto simp: doubles_def)
  show ?thesis
  proof (cases "0 \<le> k")
    case True
    define M where "M = m * 2 ^ nat k"
    have xM: "x = of_int M" unfolding xm M_def using True by (simp add: power_int_def)
    have "(of_int 1 :: rat) \<le> of_int M" using ge xM by simp
    then have 1: "1 \<le> M" by (simp only: of_int_le_iff)
    have "(of_int M :: rat) \<le> of_int (2 ^ 53)" using le xM by simp
    then have 2: "M \<le> 2 ^ 53" by (simp only: of_int_le_iff)
    have "\<bar>M - 1\<bar> < 2 ^ 53" using 1 2 by linarith
    then have "of_int (M - 1) \<in> doubles" by (rule doubles_of_int)
    then show ?thesis unfolding xM by simp
  next
    case False
    define d where "d = nat (- k)"
    have kd: "k = - int d" using False by (simp add: d_def)
    have p: "(2::rat) powi k * 2 ^ d = 1" unfolding kd by (simp add: power_int_minus)
    have "x - 1 = of_int (m - 2 ^ d) * 2 powi k"
      unfolding xm using p by (simp add: algebra_simps)
    moreover have "\<bar>m - 2 ^ d\<bar> < 2 ^ 53"
    proof -
      have "1 \<le> of_int m * (2::rat) powi k" using ge xm by simp
      then have "(2::rat) ^ d \<le> of_int m * (2 powi k * 2 ^ d)"
        using mult_right_mono [of 1 "of_int m * (2::rat) powi k" "2 ^ d"] by (simp add: mult.assoc)
      then have "(of_int (2 ^ d) :: rat) \<le> of_int m" unfolding p by simp
      then have "2 ^ d \<le> m" by (simp only: of_int_le_iff)
      moreover have "(0::int) < 2 ^ d" by simp
      ultimately show ?thesis using m by linarith
    qed
    ultimately show ?thesis using k unfolding doubles_def by blast
  qed
qed

lemma fl_zero [simp]: "fl 0 = 0"
  by (simp add: fl_def)

lemma fl_nonneg: "0 \<le> x \<Longrightarrow> 0 \<le> fl x"
  using fl_mono [of 0 x] by simp

lemma fl_numeral [simp]: "numeral n < (2::int) ^ 53 \<Longrightarrow> fl (numeral n) = numeral n"
  using fl_of_int [of "numeral n"] by simp

lemma doubles_minus_one_small:
  "x \<in> doubles \<Longrightarrow> 1 \<le> x \<Longrightarrow> x \<le> 20 \<Longrightarrow> x - 1 \<in> doubles"
  by (rule doubles_minus_one) simp_all

lemma fl_minus_one:
  "x \<in> doubles \<Longrightarrow> 1 \<le> x \<Longrightarrow> x \<le> 20 \<Longrightarrow> fl (x - 1) = x - 1"
  by (intro fl_id doubles_minus_one_small)

lemma doubles_numeral [simp]: "numeral n < (2::int) ^ 53 \<Longrightarrow> numeral n \<in> doubles"
  using doubles_of_int [of "numeral n"] by simp

lemma doubles_min: "x \<in> doubles \<Longrightarrow> y \<in> doubles \<Longrightarrow> min x y \<in> doubles"
  by (simp add: min_def)

lemma fl_one [simp]: "fl 1 = 1"
  using fl_of_int [of 1] by simp

section \<open>Properties of the rate limiter\<close>

lemma isIPBlocked_snd_other:
  "tokenBuckets (snd (isIPBlocked now a s)) = tokenBuckets s"
  "requestLogs (snd (isIPBlocked now a s)) = requestLogs s"
  "circuitBreaker (snd (isIPBlocked now a s)) = circuitBreaker s"
  by (simp_all add: isIPBlocked_def split: option.split)

lemma isIPBlocked_True: "fst (isIPBlocked now a s) \<Longrightarrow> snd (isIPBlocked now a s) = s"
  by (simp add: isIPBlocked_def split: option.splits if_splits)

lemma isIPBlocked_fst:
  "fst (isIPBlocked now a s) =
     (case blockedIPs s a of None \<Rightarrow> False | Some e \<Rightarrow> e \<noteq> 0 \<and> now \<le> e)"
  by (simp add: isIPBlocked_def split: option.split)

lemma isIPBlocked_snd:
  "snd (isIPBlocked now a s) =
     s\<lparr>blockedIPs :=
         (case blockedIPs s a of
            None \<Rightarrow> blockedIPs s
          | Some e \<Rightarrow> if e \<noteq> 0 \<and> now > e then (blockedIPs s)(a := None) else blockedIPs s)\<rparr>"
  by (simp add: isIPBlocked_def split: option.split)

lemma checkTokenBucket_fst:
  "fst (checkTokenBucket now a s) = (tokens (refill now (fetchBucket now a s)) \<ge> 1)"
  by (simp add: checkTokenBucket_def consume_def split: prod.split)

lemma checkTokenBucket_snd_other:
  "requestLogs (snd (checkTokenBucket now a s)) = requestLogs s"
  "blockedIPs (snd (checkTokenBucket now a s)) = blockedIPs s"
  "circuitBreaker (snd (checkTokenBucket now a s)) = circuitBreaker s"
  by (simp_all add: checkTokenBucket_def split: prod.split)

lemma fetchBucket_cong: "tokenBuckets s1 = tokenBuckets s \<Longrightarrow> fetchBucket now a s1 = fetchBucket now a s"
  by (simp add: fetchBucket_def)

lemma logsOf_cong: "requestLogs s1 = requestLogs s \<Longrightarrow> logsOf a s1 = logsOf a s"
  by (simp add: logsOf_def)

lemma capacity_20: "rat_of_int (bucketCapacity config) = 20" "refillRate config = 1 / 2"
  by (simp_all add: config_def)

lemma refill_tokens:
  "tokens (refill now b) =
     min 20 (fl (tokens b + fl (fl (rat_of_int (now - lastRefill b) / 1000) * (1 / 2))))"
  by (simp add: refill_def capacity_20)

lemma refill_lastRefill: "lastRefill (refill now b) = now"
  by (simp add: refill_def)

lemma refill_doubles: "tokens (refill now b) \<in> doubles"
  unfolding refill_tokens by (intro doubles_min) simp_all

lemma refill_le_20: "tokens (refill now b) \<le> 20"
  unfolding refill_tokens by simp

lemma consume_lastRefill: "lastRefill (snd (consume b)) = lastRefill b"
  by (simp add: consume_def)

lemma consume_tokens:
  "tokens (snd (consume b)) = (if tokens b \<ge> 1 then fl (tokens b - 1) else tokens b)"
  by (simp add: consume_def)

text \<open>Taking one token from a refilled bucket is exact.\<close>

lemma consume_refill:
  "snd (consume (refill now b)) =
     \<lparr>tokens = (if tokens (refill now b) \<ge> 1 then tokens (refill now b) - 1
                else tokens (refill now b)),
      lastRefill = now\<rparr>"
proof (cases "tokens (refill now b) \<ge> 1")
  case True
  then have "fl (tokens (refill now b) - 1) = tokens (refill now b) - 1"
    by (intro fl_minus_one refill_doubles refill_le_20)
  then show ?thesis using True by (simp add: consume_def refill_lastRefill)
next
  case False
  then show ?thesis by (simp add: consume_def refill_lastRefill)
qed

lemma checkRateLimit_flat:
  "checkRateLimit now a requestSize ep s =
     (if isCircuitBreakerOpen s then (reject reason_circuit (Some 300), s)
      else if fst (isIPBlocked now a s)
        then (reject reason_blocked
                (map_option (\<lambda>blockExpiry. \<lceil>fl (of_int (blockExpiry - now) / 1000)\<rceil>)
                   (blockedIPs s a)), s)
      else if requestSize > 50000 then (reject reason_size None, afterBlockCheck now a s)
      else if tokens (refill now (fetchBucket now a s)) < 1
        then (reject reason_burst (Some 60), afterBucketCheck now a s)
      else if length (filter (\<lambda>l. timestamp l > now - 60000) (logsOf a s)) \<ge> 10
        then (reject reason_minute (Some 60), afterBucketCheck now a s)
      else if length (filter (\<lambda>l. timestamp l > now - 3600000) (logsOf a s)) \<ge> 100
        then (reject reason_hour (Some 3600), afterBucketCheck now a s)
      else if checkSuspiciousPatterns now (logsOf a s)
        then (reject reason_suspicious (Some 900), blockIP now a (afterBucketCheck now a s))
      else (admitted, (afterBucketCheck now a s)\<lparr>requestLogs := (requestLogs s)(a \<mapsto> logsOf a s @
               [\<lparr>timestamp = now, ip = a, size_bytes = requestSize, endpoint = ep\<rparr>])\<rparr>))"
proof -
  have f: "fetchBucket now a (snd (isIPBlocked now a s)) = fetchBucket now a s"
    by (rule fetchBucket_cong) (rule isIPBlocked_snd_other)
  have l: "logsOf a (snd (isIPBlocked now a s)) = logsOf a s"
    by (rule logsOf_cong) (rule isIPBlocked_snd_other)
  have c: "maxRequestSize config = 50000" "maxRequestsPerMinute config = 10"
    "maxRequestsPerHour config = 100" "blockDurationMinutes config * 60 = 900"
    by (simp_all add: config_def)
  show ?thesis
    unfolding checkRateLimit_def Let_def case_prod_beta afterBlockCheck_def afterBucketCheck_def
      checkTokenBucket_fst f l c checkTokenBucket_snd_other isIPBlocked_snd_other
    by (simp add: isIPBlocked_True not_le)
qed

lemma reasons_distinct:
  "distinct [reason_circuit, reason_blocked, reason_size, reason_burst, reason_minute,
     reason_hour, reason_suspicious]"
  by (simp add: reason_circuit_def reason_blocked_def reason_size_def reason_burst_def
      reason_minute_def reason_hour_def reason_suspicious_def)

lemma afterBlockCheck_other:
  "tokenBuckets (afterBlockCheck now a s) = tokenBuckets s"
  "requestLogs (afterBlockCheck now a s) = requestLogs s"
  "circuitBreaker (afterBlockCheck now a s) = circuitBreaker s"
  by (simp_all add: afterBlockCheck_def isIPBlocked_snd_other)

lemma afterBucketCheck_other:
  "requestLogs (afterBucketCheck now a s) = requestLogs s"
  "circuitBreaker (afterBucketCheck now a s) = circuitBreaker s"
  by (simp_all add: afterBucketCheck_def isIPBlocked_snd_other checkTokenBucket_snd_other)

lemma afterBucketCheck_bucket:
  "tokenBuckets (afterBucketCheck now a s) =
     (tokenBuckets s)(a \<mapsto> snd (consume (refill now (fetchBucket now a s))))"
  by (simp add: afterBucketCheck_def checkTokenBucket_def case_prod_beta isIPBlocked_snd_other
      fetchBucket_cong [OF isIPBlocked_snd_other(1)])

lemma afterBucketCheck_eq:
  "afterBucketCheck now a s =
     (snd (isIPBlocked now a s))
       \<lparr>tokenBuckets := (tokenBuckets s)(a \<mapsto> snd (consume (refill now (fetchBucket now a s))))\<rparr>"
  by (simp add: afterBucketCheck_def checkTokenBucket_def case_prod_beta isIPBlocked_snd_other
      fetchBucket_cong [OF isIPBlocked_snd_other(1)])

text \<open>
  Claim C1.  The admission check evaluates, in this order, the circuit breaker, the block
  table, the payload size (over 50000 bytes), the token bucket, the per-minute count
  (10 or more), the per-hour count (100 or more) and the suspicious-pattern test.  The
  first check that fails gives the result and nothing after it runs: the statement gives
  the result and the whole service left behind in each case.  An open circuit and a
  blocked identity leave the service as it was, with retry-after 300 and the remaining
  block time in seconds.  From the payload check on, an expired block entry is gone;
  an oversize payload has no retry-after and changes nothing else.  A token-bucket
  rejection (retry-after 60) stores the refilled bucket; the per-minute (60), per-hour
  (3600) and suspicious-pattern (900) rejections store it with one token taken, and only
  the last one blocks the identity, for 900000 ms.  Only when every check passes is the
  request appended to the identity's log and the request allowed.  The breaker is never
  changed, and the seven reasons are different strings.
\<close>

theorem checkRateLimit_order:
  "checkRateLimit now a requestSize ep s =
     (let logs = (case requestLogs s a of None \<Rightarrow> [] | Some l \<Rightarrow> l);
          refilled = tokens (refill now (fetchBucket now a s));
          unblocked =
            (case blockedIPs s a of
               None \<Rightarrow> blockedIPs s
             | Some e \<Rightarrow> if e \<noteq> 0 \<and> now > e then (blockedIPs s)(a := None) else blockedIPs s);
          kept = (tokenBuckets s)(a \<mapsto> \<lparr>tokens = refilled, lastRefill = now\<rparr>);
          spent = (tokenBuckets s)(a \<mapsto> \<lparr>tokens = refilled - 1, lastRefill = now\<rparr>)
      in
      if state (circuitBreaker s) = OPEN
      then (\<lparr>allowed = False, reason = Some reason_circuit, retryAfter = Some 300\<rparr>, s)
      else if (case blockedIPs s a of None \<Rightarrow> False | Some e \<Rightarrow> e \<noteq> 0 \<and> now \<le> e)
      then (\<lparr>allowed = False, reason = Some reason_blocked,
             retryAfter = map_option (\<lambda>e. \<lceil>fl (of_int (e - now) / 1000)\<rceil>) (blockedIPs s a)\<rparr>, s)
      else if requestSize > 50000
      then (\<lparr>allowed = False, reason = Some reason_size, retryAfter = None\<rparr>,
            s\<lparr>blockedIPs := unblocked\<rparr>)
      else if refilled < 1
      then (\<lparr>allowed = False, reason = Some reason_burst, retryAfter = Some 60\<rparr>,
            s\<lparr>blockedIPs := unblocked, tokenBuckets := kept\<rparr>)
      else if length (filter (\<lambda>l. timestamp l > now - 60000) logs) \<ge> 10
      then (\<lparr>allowed = False, reason = Some reason_minute, retryAfter = Some 60\<rparr>,
            s\<lparr>blockedIPs := unblocked, tokenBuckets := spent\<rparr>)
      else if length (filter (\<lambda>l. timestamp l > now - 3600000) logs) \<ge> 100
      then (\<lparr>allowed = False, reason = Some reason_hour, retryAfter = Some 3600\<rparr>,
            s\<lparr>blockedIPs := unblocked, tokenBuckets := spent\<rparr>)
      else if checkSuspiciousPatterns now logs
      then (\<lparr>allowed = False, reason = Some reason_suspicious, retryAfter = Some 900\<rparr>,
            s\<lparr>blockedIPs := unblocked(a \<mapsto> now + 900000), tokenBuckets := spent\<rparr>)
      else (\<lparr>allowed = True, reason = None, retryAfter = None\<rparr>,
            s\<lparr>blockedIPs := unblocked, tokenBuckets := spent,
              requestLogs := (requestLogs s)(a \<mapsto> logs @
                [\<lparr>timestamp = now, ip = a, size_bytes = requestSize, endpoint = ep\<rparr>])\<rparr>))
   \<and> distinct [reason_circuit, reason_blocked, reason_size, reason_burst, reason_minute,
        reason_hour, reason_suspicious]"
proof -
  have b: "blockDurationMinutes config * 60 * 1000 = 900000" by (simp add: config_def)
  show ?thesis
    unfolding checkRateLimit_flat afterBucketCheck_eq afterBlockCheck_def isIPBlocked_snd
      isIPBlocked_fst consume_refill isCircuitBreakerOpen_def reject_def admitted_def
      blockIP_def logsOf_def b Let_def
    using reasons_distinct
    by (simp add: not_less)
qed

theorem checkRateLimit_order_witness:
  "checkRateLimit 1000 ''client_1'' 60000 ''gemini-api'' initialService =
     (\<lparr>allowed = False, reason = Some reason_size, retryAfter = None\<rparr>, initialService)"
  using checkRateLimit_order [of 1000 "''client_1''" 60000 "''gemini-api''" initialService]
  by (simp add: initialService_def Let_def)

lemma refill_same_instant:
  "lastRefill b = now \<Longrightarrow> tokens b \<in> doubles \<Longrightarrow> tokens b \<le> 20 \<Longrightarrow> refill now b = b"
  by (simp add: refill_def capacity_20 fl_id)

text \<open>
  Claim C10.  A rejection is not state-preserving.  When the admission check is rejected
  by the per-minute, the per-hour or the suspicious-pattern check, the token-bucket step
  has already run: the refilled bucket held at least one token, the stored bucket holds
  one token less and carries the call's time as \<open>lastRefill\<close>, so the bucket table
  differs from the one the call found, while the request log is as it was.  A rejection
  by the circuit breaker, the block table or the payload size leaves the bucket table as
  it was; every other outcome leaves the table that \<open>checkTokenBucket\<close> writes.
\<close>

theorem rejection_consumes_token:
  "(reason (fst (checkRateLimit now a requestSize ep s))
       \<in> {Some reason_minute, Some reason_hour, Some reason_suspicious} \<longrightarrow>
      tokens (refill now (fetchBucket now a s)) \<ge> 1
      \<and> tokenBuckets (snd (checkRateLimit now a requestSize ep s)) =
          (tokenBuckets s)(a \<mapsto> \<lparr>tokens = tokens (refill now (fetchBucket now a s)) - 1,
                                   lastRefill = now\<rparr>)
      \<and> tokenBuckets (snd (checkRateLimit now a requestSize ep s)) \<noteq> tokenBuckets s
      \<and> requestLogs (snd (checkRateLimit now a requestSize ep s)) = requestLogs s)
   \<and> (reason (fst (checkRateLimit now a requestSize ep s))
       \<in> {Some reason_circuit, Some reason_blocked, Some reason_size} \<longrightarrow>
      tokenBuckets (snd (checkRateLimit now a requestSize ep s)) = tokenBuckets s)
   \<and> (reason (fst (checkRateLimit now a requestSize ep s))
       \<notin> {Some reason_circuit, Some reason_blocked, Some reason_size} \<longrightarrow>
      tokenBuckets (snd (checkRateLimit now a requestSize ep s)) =
        tokenBuckets (snd (checkTokenBucket now a s)))"
proof -
  let ?b = "refill now (fetchBucket now a s)"
  have d: "distinct [reason_circuit, reason_blocked, reason_size, reason_burst, reason_minute,
     reason_hour, reason_suspicious]" by (rule reasons_distinct)
  have d': "distinct [reason_suspicious, reason_hour, reason_minute, reason_burst, reason_size,
     reason_blocked, reason_circuit]"
    by (simp add: reason_circuit_def reason_blocked_def reason_size_def reason_burst_def
      reason_minute_def reason_hour_def reason_suspicious_def)
  have ne: "(tokenBuckets s)(a \<mapsto> \<lparr>tokens = tokens ?b - 1, lastRefill = now\<rparr>) \<noteq> tokenBuckets s"
    if ge: "1 \<le> tokens ?b"
  proof
    assume e: "(tokenBuckets s)(a \<mapsto> \<lparr>tokens = tokens ?b - 1, lastRefill = now\<rparr>) = tokenBuckets s"
    have look: "tokenBuckets s a = Some \<lparr>tokens = tokens ?b - 1, lastRefill = now\<rparr>"
      by (metis e fun_upd_same)
    then obtain b0 where b0: "tokenBuckets s a = Some b0"
      and eq: "b0 = \<lparr>tokens = tokens ?b - 1, lastRefill = now\<rparr>" by blast
    have fb: "fetchBucket now a s = b0" using b0 by (simp add: fetchBucket_def)
    have t0: "tokens b0 = tokens ?b - 1" and l0: "lastRefill b0 = now"
      using eq by simp_all
    have "tokens b0 \<in> doubles" unfolding t0
      using ge by (intro doubles_minus_one_small refill_doubles refill_le_20)
    moreover have "tokens b0 \<le> 20" unfolding t0 using refill_le_20 [of now "fetchBucket now a s"] by simp
    ultimately have "refill now b0 = b0" using l0 by (intro refill_same_instant)
    then have "tokens ?b = tokens b0" unfolding fb by simp
    then show False using t0 by simp
  qed
  have tb: "tokenBuckets (snd (checkTokenBucket now a s)) = (tokenBuckets s)(a \<mapsto> snd (consume ?b))"
    by (simp add: checkTokenBucket_def case_prod_beta)
  show ?thesis
    using d d' ne
    by (simp add: checkRateLimit_flat reject_def admitted_def afterBlockCheck_other
      afterBucketCheck_other afterBucketCheck_bucket blockIP_def tb consume_refill not_less)
qed

lemma recordFailures_snoc:
  "recordFailures (ts @ [t]) s = recordFailure t (recordFailures ts s)"
  by (simp add: recordFailures_def)

lemma recordFailure_frame:
  "recordFailure t s = s\<lparr>circuitBreaker := circuitBreaker (recordFailure t s)\<rparr>"
  by (simp add: recordFailure_def Let_def)

lemma recordFailures_frame:
  "recordFailures ts s = s\<lparr>circuitBreaker := circuitBreaker (recordFailures ts s)\<rparr>"
proof (induction ts rule: rev_induct)
  case Nil
  then show ?case by (simp add: recordFailures_def)
next
  case (snoc t ts)
  have "recordFailures (ts @ [t]) s
      = (recordFailures ts s)\<lparr>circuitBreaker := circuitBreaker (recordFailures (ts @ [t]) s)\<rparr>"
    unfolding recordFailures_snoc by (rule recordFailure_frame)
  also have "\<dots> = s\<lparr>circuitBreaker := circuitBreaker (recordFailures (ts @ [t]) s)\<rparr>"
    by (subst snoc.IH) simp
  finally show ?case .
qed

lemma recordFailure_other:
  "requestLogs (recordFailure t s) = requestLogs s"
  "tokenBuckets (recordFailure t s) = tokenBuckets s"
  "blockedIPs (recordFailure t s) = blockedIPs s"
  by (simp_all add: recordFailure_def Let_def)

lemma recordFailure_closed:
  "state (circuitBreaker s) = CLOSED \<Longrightarrow>
   circuitBreaker (recordFailure t s) =
     \<lparr>failures = failures (circuitBreaker s) + 1, lastFailureTime = t,
      state = (if failures (circuitBreaker s) + 1 \<ge> 5 then OPEN else CLOSED)\<rparr>"
  by (simp add: recordFailure_def Let_def)

lemma recordFailure_half_open:
  "state (circuitBreaker s) = HALF_OPEN \<Longrightarrow>
   circuitBreaker (recordFailure t s) =
     \<lparr>failures = failures (circuitBreaker s) + 1, lastFailureTime = t, state = OPEN\<rparr>"
  by (simp add: recordFailure_def Let_def)

lemma recordFailures_closed:
  "state (circuitBreaker s) = CLOSED \<Longrightarrow> failures (circuitBreaker s) = 0 \<Longrightarrow>
   length ts < 5 \<Longrightarrow>
   circuitBreaker (recordFailures ts s) =
     \<lparr>failures = int (length ts),
      lastFailureTime = (if ts = [] then lastFailureTime (circuitBreaker s) else last ts),
      state = CLOSED\<rparr>"
proof (induction ts rule: rev_induct)
  case Nil
  then show ?case by (simp add: recordFailures_def)
next
  case (snoc t ts)
  then have ih: "circuitBreaker (recordFailures ts s) =
     \<lparr>failures = int (length ts),
      lastFailureTime = (if ts = [] then lastFailureTime (circuitBreaker s) else last ts),
      state = CLOSED\<rparr>" by simp
  then have c: "state (circuitBreaker (recordFailures ts s)) = CLOSED"
    and f: "failures (circuitBreaker (recordFailures ts s)) = int (length ts)" by simp_all
  from snoc.prems have "length ts < 4" by simp
  then show ?case
    by (simp add: recordFailures_snoc recordFailure_closed [OF c] f)
qed

lemma recordFailures_open:
  assumes "state (circuitBreaker s) = CLOSED" "failures (circuitBreaker s) = 0"
  shows "circuitBreaker (recordFailures [t1, t2, t3, t4, t5] s) =
           \<lparr>failures = 5, lastFailureTime = t5, state = OPEN\<rparr>"
proof -
  have four: "circuitBreaker (recordFailures [t1, t2, t3, t4] s) =
      \<lparr>failures = 4, lastFailureTime = t4, state = CLOSED\<rparr>"
    using recordFailures_closed [OF assms, of "[t1, t2, t3, t4]"] by simp
  then have c: "state (circuitBreaker (recordFailures [t1, t2, t3, t4] s)) = CLOSED"
    and f: "failures (circuitBreaker (recordFailures [t1, t2, t3, t4] s)) = 4" by simp_all
  have "recordFailures [t1, t2, t3, t4, t5] s = recordFailure t5 (recordFailures [t1, t2, t3, t4] s)"
    using recordFailures_snoc [of "[t1, t2, t3, t4]" t5 s] by simp
  then show ?thesis
    by (simp add: recordFailure_closed [OF c] f)
qed

lemma checkRateLimit_open:
  "state (circuitBreaker s) = OPEN \<Longrightarrow>
   checkRateLimit now a requestSize ep s =
     (\<lparr>allowed = False, reason = Some reason_circuit, retryAfter = Some 300\<rparr>, s)"
  by (simp add: checkRateLimit_flat isCircuitBreakerOpen_def reject_def)

lemma updateCircuitBreaker_open:
  "state (circuitBreaker s) = OPEN \<Longrightarrow>
   updateCircuitBreaker now s =
     s\<lparr>circuitBreaker := (circuitBreaker s)
         \<lparr>state := (if now - lastFailureTime (circuitBreaker s) > 300000 then HALF_OPEN else OPEN)\<rparr>\<rparr>"
  by (simp add: updateCircuitBreaker_def Let_def)

lemma recordFailure_reopen:
  "state (circuitBreaker s) = HALF_OPEN \<Longrightarrow>
   recordFailure now s =
     s\<lparr>circuitBreaker :=
         \<lparr>failures = failures (circuitBreaker s) + 1, lastFailureTime = now, state = OPEN\<rparr>\<rparr>"
  by (simp add: recordFailure_def Let_def)

text \<open>
  Claim C4, as amended.  From \<open>CLOSED\<close> with no failure counted, fewer than five
  \<open>recordFailure\<close> calls leave the breaker \<open>CLOSED\<close>, counting them and keeping the time
  of the last one; the fifth opens it, with five failures counted and the time of the
  fifth as the time of the last failure, and changes nothing else of the service.  An
  admission check on the service so opened, at any time, is rejected with retry-after
  300 and leaves the service, the breaker included, as it was.  It is the periodic
  \<open>updateCircuitBreaker\<close> that moves the breaker to \<open>HALF_OPEN\<close>, without counting a
  failure or touching the time of the last one, when more than 300000 ms have passed
  since the fifth failure, and leaves it \<open>OPEN\<close> before.  One \<open>recordFailure\<close> on the
  half-open breaker reopens it at once, counting a sixth failure at its own time.  The
  last three facts hold of every service whose breaker is \<open>OPEN\<close>, or \<open>HALF_OPEN\<close>.
\<close>

theorem breaker_lifecycle:
  "(state (circuitBreaker s) = CLOSED \<and> failures (circuitBreaker s) = 0 \<longrightarrow>
      (length ts < 5 \<longrightarrow>
         circuitBreaker (recordFailures ts s) =
           \<lparr>failures = int (length ts),
            lastFailureTime = (if ts = [] then lastFailureTime (circuitBreaker s) else last ts),
            state = CLOSED\<rparr>)
      \<and> recordFailures [t1, t2, t3, t4, t5] s =
          s\<lparr>circuitBreaker := \<lparr>failures = 5, lastFailureTime = t5, state = OPEN\<rparr>\<rparr>
      \<and> checkRateLimit now a requestSize ep (recordFailures [t1, t2, t3, t4, t5] s) =
          (\<lparr>allowed = False, reason = Some reason_circuit, retryAfter = Some 300\<rparr>,
           recordFailures [t1, t2, t3, t4, t5] s)
      \<and> updateCircuitBreaker now (recordFailures [t1, t2, t3, t4, t5] s) =
          s\<lparr>circuitBreaker := \<lparr>failures = 5, lastFailureTime = t5,
               state = (if now - t5 > 300000 then HALF_OPEN else OPEN)\<rparr>\<rparr>
      \<and> (now - t5 > 300000 \<longrightarrow>
           recordFailure t6 (updateCircuitBreaker now (recordFailures [t1, t2, t3, t4, t5] s)) =
             s\<lparr>circuitBreaker := \<lparr>failures = 6, lastFailureTime = t6, state = OPEN\<rparr>\<rparr>))
   \<and> (state (circuitBreaker opened) = OPEN \<longrightarrow>
        checkRateLimit now a requestSize ep opened =
          (\<lparr>allowed = False, reason = Some reason_circuit, retryAfter = Some 300\<rparr>, opened)
        \<and> updateCircuitBreaker now opened =
            opened\<lparr>circuitBreaker := (circuitBreaker opened)
              \<lparr>state := (if now - lastFailureTime (circuitBreaker opened) > 300000
                          then HALF_OPEN else OPEN)\<rparr>\<rparr>)
   \<and> (state (circuitBreaker half) = HALF_OPEN \<longrightarrow>
        recordFailure now half =
          half\<lparr>circuitBreaker :=
            \<lparr>failures = failures (circuitBreaker half) + 1, lastFailureTime = now,
             state = OPEN\<rparr>\<rparr>)"
proof -
  let ?s5 = "recordFailures [t1, t2, t3, t4, t5] s"
  have life: "recordFailures [t1, t2, t3, t4, t5] s =
          s\<lparr>circuitBreaker := \<lparr>failures = 5, lastFailureTime = t5, state = OPEN\<rparr>\<rparr>
      \<and> checkRateLimit now a requestSize ep ?s5 =
          (\<lparr>allowed = False, reason = Some reason_circuit, retryAfter = Some 300\<rparr>, ?s5)
      \<and> updateCircuitBreaker now ?s5 =
          s\<lparr>circuitBreaker := \<lparr>failures = 5, lastFailureTime = t5,
               state = (if now - t5 > 300000 then HALF_OPEN else OPEN)\<rparr>\<rparr>
      \<and> (now - t5 > 300000 \<longrightarrow>
           recordFailure t6 (updateCircuitBreaker now ?s5) =
             s\<lparr>circuitBreaker := \<lparr>failures = 6, lastFailureTime = t6, state = OPEN\<rparr>\<rparr>)"
    if h: "state (circuitBreaker s) = CLOSED" "failures (circuitBreaker s) = 0"
  proof -
    have cb: "circuitBreaker ?s5 = \<lparr>failures = 5, lastFailureTime = t5, state = OPEN\<rparr>"
      by (rule recordFailures_open [OF h])
    have s5: "?s5 = s\<lparr>circuitBreaker := \<lparr>failures = 5, lastFailureTime = t5, state = OPEN\<rparr>\<rparr>"
      using recordFailures_frame [of "[t1, t2, t3, t4, t5]" s] unfolding cb .
    have o: "state (circuitBreaker ?s5) = OPEN" by (simp add: cb)
    have u: "updateCircuitBreaker now ?s5 =
          s\<lparr>circuitBreaker := \<lparr>failures = 5, lastFailureTime = t5,
               state = (if now - t5 > 300000 then HALF_OPEN else OPEN)\<rparr>\<rparr>"
      unfolding updateCircuitBreaker_open [OF o] cb by (subst s5) simp
    have r: "recordFailure t6 (updateCircuitBreaker now ?s5) =
             s\<lparr>circuitBreaker := \<lparr>failures = 6, lastFailureTime = t6, state = OPEN\<rparr>\<rparr>"
      if "now - t5 > 300000"
      unfolding u using that by (simp add: recordFailure_reopen)
    show ?thesis using s5 checkRateLimit_open [OF o] u r by blast
  qed
  show ?thesis
    using life recordFailures_closed [of s ts] checkRateLimit_open [of opened now a requestSize ep]
      updateCircuitBreaker_open [of opened now] recordFailure_reopen [of half now]
    by blast
qed

text \<open>
  The claim as stated fails: five failures at time 0 open the breaker, and an admission
  check more than five minutes later leaves it open.
\<close>

theorem breaker_admit_counterexample:
  "state (circuitBreaker (snd (checkRateLimit 300001 ''client_1'' 100 ''gemini-api''
      (recordFailures [0, 0, 0, 0, 0] initialService)))) \<noteq> HALF_OPEN"
proof -
  have "state (circuitBreaker (recordFailures [0, 0, 0, 0, 0] initialService)) = OPEN"
    using recordFailures_open [of initialService 0 0 0 0 0] by (simp add: initialService_def)
  then show ?thesis by (simp add: checkRateLimit_open)
qed

theorem breaker_lifecycle_witness:
  "state (circuitBreaker initialService) = CLOSED \<and> failures (circuitBreaker initialService) = 0
   \<and> circuitBreaker (recordFailures [10, 20, 30, 40] initialService)
      = \<lparr>failures = 4, lastFailureTime = 40, state = CLOSED\<rparr>
   \<and> recordFailures [10, 20, 30, 40, 50] initialService
      = initialService\<lparr>circuitBreaker := \<lparr>failures = 5, lastFailureTime = 50, state = OPEN\<rparr>\<rparr>
   \<and> checkRateLimit 300051 ''client_1'' 100 ''gemini-api''
        (recordFailures [10, 20, 30, 40, 50] initialService)
      = (\<lparr>allowed = False, reason = Some reason_circuit, retryAfter = Some 300\<rparr>,
         recordFailures [10, 20, 30, 40, 50] initialService)
   \<and> updateCircuitBreaker 300050 (recordFailures [10, 20, 30, 40, 50] initialService)
      = initialService\<lparr>circuitBreaker := \<lparr>failures = 5, lastFailureTime = 50, state = OPEN\<rparr>\<rparr>
   \<and> updateCircuitBreaker 300051 (recordFailures [10, 20, 30, 40, 50] initialService)
      = initialService\<lparr>circuitBreaker := \<lparr>failures = 5, lastFailureTime = 50, state = HALF_OPEN\<rparr>\<rparr>
   \<and> recordFailure 400000
        (updateCircuitBreaker 300051 (recordFailures [10, 20, 30, 40, 50] initialService))
      = initialService\<lparr>circuitBreaker := \<lparr>failures = 6, lastFailureTime = 400000, state = OPEN\<rparr>\<rparr>
   \<and> state (circuitBreaker (initialService\<lparr>circuitBreaker :=
        \<lparr>failures = 5, lastFailureTime = 50, state = HALF_OPEN\<rparr>\<rparr>)) = HALF_OPEN
   \<and> recordFailure 300051 (initialService\<lparr>circuitBreaker :=
        \<lparr>failures = 5, lastFailureTime = 50, state = HALF_OPEN\<rparr>\<rparr>)
      = initialService\<lparr>circuitBreaker := \<lparr>failures = 6, lastFailureTime = 300051, state = OPEN\<rparr>\<rparr>"
proof -
  have c: "state (circuitBreaker initialService) = CLOSED \<and> failures (circuitBreaker initialService) = 0"
    by (simp add: initialService_def)
  note T = breaker_lifecycle [where s = initialService and ts = "[10, 20, 30, 40]" and ?t1.0 = 10
      and ?t2.0 = 20 and ?t3.0 = 30 and ?t4.0 = 40 and ?t5.0 = 50 and ?t6.0 = 400000
      and now = 300051 and a = "''client_1''" and requestSize = 100 and ep = "''gemini-api''"
      and opened = "recordFailures [10, 20, 30, 40, 50] initialService"
      and half = "initialService\<lparr>circuitBreaker := \<lparr>failures = 5, lastFailureTime = 50, state = HALF_OPEN\<rparr>\<rparr>"]
  note T' = breaker_lifecycle [where s = initialService and ts = "[10, 20, 30, 40]" and ?t1.0 = 10
      and ?t2.0 = 20 and ?t3.0 = 30 and ?t4.0 = 40 and ?t5.0 = 50 and ?t6.0 = 400000
      and now = 300050 and a = "''client_1''" and requestSize = 100 and ep = "''gemini-api''"
      and opened = "recordFailures [10, 20, 30, 40, 50] initialService"
      and half = "initialService\<lparr>circuitBreaker := \<lparr>failures = 5, lastFailureTime = 50, state = HALF_OPEN\<rparr>\<rparr>"]
  note L = T [THEN conjunct1, THEN mp, OF c]
  note L' = T' [THEN conjunct1, THEN mp, OF c]
  have four: "circuitBreaker (recordFailures [10, 20, 30, 40] initialService)
      = \<lparr>failures = 4, lastFailureTime = 40, state = CLOSED\<rparr>"
    using L [THEN conjunct1] by simp
  note A = L [THEN conjunct2, THEN conjunct1]
  note B = L [THEN conjunct2, THEN conjunct2, THEN conjunct1]
  have U: "updateCircuitBreaker 300051 (recordFailures [10, 20, 30, 40, 50] initialService)
      = initialService\<lparr>circuitBreaker := \<lparr>failures = 5, lastFailureTime = 50, state = HALF_OPEN\<rparr>\<rparr>"
    using L [THEN conjunct2, THEN conjunct2, THEN conjunct2, THEN conjunct1] by simp
  have U': "updateCircuitBreaker 300050 (recordFailures [10, 20, 30, 40, 50] initialService)
      = initialService\<lparr>circuitBreaker := \<lparr>failures = 5, lastFailureTime = 50, state = OPEN\<rparr>\<rparr>"
    using L' [THEN conjunct2, THEN conjunct2, THEN conjunct2, THEN conjunct1] by simp
  have R: "recordFailure 400000
        (updateCircuitBreaker 300051 (recordFailures [10, 20, 30, 40, 50] initialService))
      = initialService\<lparr>circuitBreaker := \<lparr>failures = 6, lastFailureTime = 400000, state = OPEN\<rparr>\<rparr>"
    using L [THEN conjunct2, THEN conjunct2, THEN conjunct2, THEN conjunct2] by simp
  have h: "state (circuitBreaker (initialService\<lparr>circuitBreaker :=
        \<lparr>failures = 5, lastFailureTime = 50, state = HALF_OPEN\<rparr>\<rparr>)) = HALF_OPEN" by simp
  have H: "recordFailure 300051 (initialService\<lparr>circuitBreaker :=
        \<lparr>failures = 5, lastFailureTime = 50, state = HALF_OPEN\<rparr>\<rparr>)
      = initialService\<lparr>circuitBreaker := \<lparr>failures = 6, lastFailureTime = 300051, state = OPEN\<rparr>\<rparr>"
    using T [THEN conjunct2, THEN conjunct2, THEN mp, OF h] by simp
  show ?thesis
    by (intro conjI c [THEN conjunct1] c [THEN conjunct2] four A B U U' R h H)
qed

lemma checkTokenBucket_eq:
  "checkTokenBucket now a s =
     (tokens (refill now (fetchBucket now a s)) \<ge> 1,
      s\<lparr>tokenBuckets := (tokenBuckets s)(a \<mapsto> snd (consume (refill now (fetchBucket now a s))))\<rparr>)"
  by (simp add: checkTokenBucket_def case_prod_beta consume_def)

lemma fetchBucket_checkTokenBucket:
  "fetchBucket now a (snd (checkTokenBucket now a s)) = snd (consume (refill now (fetchBucket now a s)))"
  by (simp add: checkTokenBucket_def case_prod_beta fetchBucket_def)

lemma doubles_of_nat: "n \<le> 20 \<Longrightarrow> rat_of_nat n \<in> doubles"
  using doubles_of_int [of "int n"] by simp

lemma level_doubles: "k \<le> 20 \<Longrightarrow> 20 - rat_of_nat k \<in> doubles"
  using doubles_of_int [of "20 - int k"] by simp

lemma checkTokenBucketTimes_level:
  "fetchBucket now a s = \<lparr>tokens = of_nat n, lastRefill = now\<rparr> \<Longrightarrow> n \<le> 20 \<Longrightarrow>
   fst (checkTokenBucketTimes m now a s) = replicate (min m n) True @ replicate (m - n) False
   \<and> fetchBucket now a (snd (checkTokenBucketTimes m now a s))
       = \<lparr>tokens = of_nat (n - m), lastRefill = now\<rparr>"
proof (induction m arbitrary: n s)
  case 0
  then show ?case by simp
next
  case (Suc m)
  let ?b = "\<lparr>tokens = rat_of_nat n, lastRefill = now\<rparr>"
  have r: "refill now (fetchBucket now a s) = ?b"
    using Suc.prems by (simp add: refill_same_instant doubles_of_nat)
  have cr: "snd (consume (refill now (fetchBucket now a s)))
      = \<lparr>tokens = (if rat_of_nat n \<ge> 1 then rat_of_nat n - 1 else rat_of_nat n), lastRefill = now\<rparr>"
    using consume_refill [of now "fetchBucket now a s"] unfolding r by simp
  let ?s1 = "snd (checkTokenBucket now a s)"
  show ?case
  proof (cases n)
    case 0
    have f1: "fetchBucket now a ?s1 = \<lparr>tokens = of_nat 0, lastRefill = now\<rparr>"
      using 0 by (simp add: fetchBucket_checkTokenBucket cr)
    have "fst (checkTokenBucketTimes m now a ?s1) = replicate (min m 0) True @ replicate (m - 0) False
       \<and> fetchBucket now a (snd (checkTokenBucketTimes m now a ?s1))
           = \<lparr>tokens = of_nat (0 - m), lastRefill = now\<rparr>"
      by (rule Suc.IH [OF f1]) simp
    then show ?thesis
      using 0 by (simp add: case_prod_beta checkTokenBucket_fst r)
  next
    case (Suc k)
    have f1: "fetchBucket now a ?s1 = \<lparr>tokens = of_nat k, lastRefill = now\<rparr>"
      using Suc by (simp add: fetchBucket_checkTokenBucket cr)
    have "fst (checkTokenBucketTimes m now a ?s1) = replicate (min m k) True @ replicate (m - k) False
       \<and> fetchBucket now a (snd (checkTokenBucketTimes m now a ?s1))
           = \<lparr>tokens = of_nat (k - m), lastRefill = now\<rparr>"
      using Suc.prems Suc by (intro Suc.IH [OF f1]) simp
    then show ?thesis
      using Suc by (simp add: case_prod_beta checkTokenBucket_fst r)
  qed
qed

lemma checkRateLimitTimes_add:
  "checkRateLimitTimes (m + n) now a requestSize ep s =
     (fst (checkRateLimitTimes m now a requestSize ep s)
        @ fst (checkRateLimitTimes n now a requestSize ep
                 (snd (checkRateLimitTimes m now a requestSize ep s))),
      snd (checkRateLimitTimes n now a requestSize ep
             (snd (checkRateLimitTimes m now a requestSize ep s))))"
  by (induction m arbitrary: s) (simp_all add: case_prod_beta)

lemma fold_sizes:
  "0 \<le> r \<Longrightarrow> 0 \<le> c \<Longrightarrow> c + int k * r \<le> 250000 \<Longrightarrow>
   fold (\<lambda>l sum. fl (sum + of_int (size_bytes l)))
     (replicate k \<lparr>timestamp = t, ip = a, size_bytes = r, endpoint = ep\<rparr>) (of_int c)
   = of_int (c + int k * r)"
proof (induction k arbitrary: c)
  case 0
  then show ?case by simp
next
  case (Suc k)
  have nn: "0 \<le> int k * r" using Suc.prems(1) by simp
  have "int (Suc k) * r = r + int k * r" by (simp add: algebra_simps)
  then have t: "c + r + int k * r \<le> 250000" using Suc.prems(3) by linarith
  then have b: "0 \<le> c + r" "c + r \<le> 250000" "c + r + int k * r \<le> 250000"
    using Suc.prems(1,2) nn by linarith+
  have "\<bar>c + r\<bar> < 2 ^ 53" using b(1,2) by simp
  then have "fl (rat_of_int (c + r)) = rat_of_int (c + r)" by (rule fl_of_int)
  then have f: "fl (rat_of_int c + rat_of_int r) = rat_of_int (c + r)" by simp
  show ?case
    using Suc.IH [OF Suc.prems(1) b(1) b(3)] by (simp add: f algebra_simps)
qed

lemma not_suspicious_replicate:
  assumes "k < 5" "requestSize \<le> 50000"
  shows "\<not> checkSuspiciousPatterns now
           (replicate k \<lparr>timestamp = now, ip = a, size_bytes = requestSize, endpoint = ep\<rparr>)"
proof (cases k)
  case 0
  then show ?thesis by (simp add: checkSuspiciousPatterns_def config_def)
next
  case (Suc j)
  let ?e = "\<lparr>timestamp = now, ip = a, size_bytes = requestSize, endpoint = ep\<rparr>"
  have rv: "rev (replicate k ?e) = ?e # replicate j ?e"
    using Suc by (simp add: replicate_append_same)
  show ?thesis
  proof (cases "requestSize > 10000")
    case False
    then show ?thesis
      using assms(1) Suc unfolding checkSuspiciousPatterns_def Let_def rv
      by (simp add: config_def)
  next
    case True
    have "int k * requestSize \<le> 5 * 50000"
      using assms True by (intro mult_mono) simp_all
    then have "0 + int k * requestSize \<le> 250000" by simp
    from fold_sizes [OF _ _ this, of now a ep] True
    have sum: "fold (\<lambda>l sum. fl (sum + of_int (size_bytes l))) (replicate k ?e) 0
        = of_int (int k * requestSize)" by simp
    have b: "\<bar>requestSize\<bar> < 2 ^ 53" "\<bar>requestSize * 3\<bar> < 2 ^ 53" using True assms(2) by simp_all
    have "rat_of_int (int k * requestSize) / rat_of_nat k = rat_of_int requestSize"
      using Suc by simp
    then have avg: "fl (rat_of_int (int k * requestSize) / rat_of_nat k) = rat_of_int requestSize"
      using fl_of_int [OF b(1)] by simp
    have "fl (rat_of_int (requestSize * 3)) = rat_of_int (requestSize * 3)"
      by (rule fl_of_int [OF b(2)])
    then have three: "fl (rat_of_int requestSize * 3) = rat_of_int requestSize * 3" by simp
    have "\<not> rat_of_int requestSize > rat_of_int requestSize * 3" using True by simp
    then show ?thesis
      using assms(1) Suc unfolding checkSuspiciousPatterns_def Let_def rv sum length_replicate
      by (simp add: config_def avg three fl_of_int [OF b(1)])
  qed
qed

lemma suspicious_replicate:
  "checkSuspiciousPatterns now
     (replicate 5 \<lparr>timestamp = now, ip = a, size_bytes = requestSize, endpoint = ep\<rparr>)"
  by (simp add: checkSuspiciousPatterns_def config_def)

lemma burst_step:
  assumes "burstState k now a requestSize ep s" "k < 5" "requestSize \<le> 50000"
  shows "fst (checkRateLimit now a requestSize ep s) = admitted"
    and "burstState (Suc k) now a requestSize ep (snd (checkRateLimit now a requestSize ep s))"
proof -
  let ?e = "\<lparr>timestamp = now, ip = a, size_bytes = requestSize, endpoint = ep\<rparr>"
  have st: "state (circuitBreaker s) = CLOSED" "blockedIPs s a = None"
    "logsOf a s = replicate k ?e"
    "fetchBucket now a s = \<lparr>tokens = 20 - of_nat k, lastRefill = now\<rparr>"
    using assms(1) by (simp_all add: burstState_def)
  have r: "refill now (fetchBucket now a s) = \<lparr>tokens = 20 - of_nat k, lastRefill = now\<rparr>"
    unfolding st using assms(2) by (simp add: refill_same_instant level_doubles)
  have tok: "\<not> (20 - rat_of_nat k < 1)" using assms(2) by simp
  have flat: "checkRateLimit now a requestSize ep s =
      (admitted, (afterBucketCheck now a s)\<lparr>requestLogs := (requestLogs s)(a \<mapsto> replicate k ?e @ [?e])\<rparr>)"
    unfolding checkRateLimit_flat r st(3)
    using st(1,2) assms(2,3) tok not_suspicious_replicate [OF assms(2,3), of now a ep]
    by (simp add: isCircuitBreakerOpen_def isIPBlocked_def)
  show "fst (checkRateLimit now a requestSize ep s) = admitted" by (simp add: flat)
  have ab: "afterBlockCheck now a s = s"
    using st(2) by (simp add: afterBlockCheck_def isIPBlocked_def)
  have "rat_of_nat k \<le> 19" using assms(2) by simp
  then have c: "20 - rat_of_nat k - 1 = 19 - rat_of_nat k" "1 \<le> 20 - rat_of_nat k" by simp_all
  have cr: "snd (consume (refill now (fetchBucket now a s)))
      = \<lparr>tokens = 19 - rat_of_nat k, lastRefill = now\<rparr>"
    using consume_refill [of now "fetchBucket now a s"] unfolding r using c by simp
  have "fetchBucket now a (afterBucketCheck now a s)
      = snd (consume (refill now (fetchBucket now a s)))"
    by (simp add: fetchBucket_def [of now a "afterBucketCheck now a s"] afterBucketCheck_bucket)
  then have fb: "fetchBucket now a (afterBucketCheck now a s) = \<lparr>tokens = 19 - of_nat k, lastRefill = now\<rparr>"
    by (simp only: cr)
  have fb': "fetchBucket now a ((afterBucketCheck now a s)\<lparr>requestLogs := (requestLogs s)(a \<mapsto> replicate k ?e @ [?e])\<rparr>)
      = fetchBucket now a (afterBucketCheck now a s)"
    by (rule fetchBucket_cong) simp
  have bl: "blockedIPs (afterBucketCheck now a s) a = None"
    using ab st(2) by (simp add: afterBucketCheck_def afterBlockCheck_def checkTokenBucket_snd_other)
  show "burstState (Suc k) now a requestSize ep (snd (checkRateLimit now a requestSize ep s))"
    unfolding flat burstState_def snd_conv fb' fb
    using st(1) bl
    by (simp add: afterBucketCheck_other logsOf_def replicate_append_same)
qed

lemma burst_run:
  "burstState k now a requestSize ep s \<Longrightarrow> k + m \<le> 5 \<Longrightarrow> requestSize \<le> 50000 \<Longrightarrow>
   fst (checkRateLimitTimes m now a requestSize ep s) = replicate m admitted
   \<and> burstState (k + m) now a requestSize ep (snd (checkRateLimitTimes m now a requestSize ep s))"
proof (induction m arbitrary: k s)
  case 0
  then show ?case by simp
next
  case (Suc m)
  from Suc.prems have k: "k < 5" by simp
  note step = burst_step [OF Suc.prems(1) k Suc.prems(3)]
  have "Suc k + m \<le> 5" using Suc.prems by simp
  from Suc.IH [OF step(2) this Suc.prems(3)] step(1)
  show ?case by (simp add: case_prod_beta)
qed

lemma burst_sixth:
  assumes "burstState 5 now a requestSize ep s" "requestSize \<le> 50000"
  shows "fst (checkRateLimit now a requestSize ep s) = reject reason_suspicious (Some 900)"
    and "state (circuitBreaker (snd (checkRateLimit now a requestSize ep s))) = CLOSED"
    and "blockedIPs (snd (checkRateLimit now a requestSize ep s)) a = Some (now + 900000)"
proof -
  let ?e = "\<lparr>timestamp = now, ip = a, size_bytes = requestSize, endpoint = ep\<rparr>"
  have st: "state (circuitBreaker s) = CLOSED" "blockedIPs s a = None"
    "logsOf a s = replicate 5 ?e"
    "fetchBucket now a s = \<lparr>tokens = 15, lastRefill = now\<rparr>"
    using assms(1) by (simp_all add: burstState_def)
  have r: "refill now (fetchBucket now a s) = \<lparr>tokens = 15, lastRefill = now\<rparr>"
    unfolding st by (simp add: refill_same_instant)
  have flat: "checkRateLimit now a requestSize ep s =
      (reject reason_suspicious (Some 900), blockIP now a (afterBucketCheck now a s))"
    unfolding checkRateLimit_flat r st(3)
    using st(1,2) assms(2) suspicious_replicate [of now a requestSize ep]
    by (simp add: isCircuitBreakerOpen_def isIPBlocked_def)
  show "fst (checkRateLimit now a requestSize ep s) = reject reason_suspicious (Some 900)"
    by (simp add: flat)
  show "state (circuitBreaker (snd (checkRateLimit now a requestSize ep s))) = CLOSED"
    using st(1) by (simp add: flat blockIP_def afterBucketCheck_other)
  show "blockedIPs (snd (checkRateLimit now a requestSize ep s)) a = Some (now + 900000)"
    by (simp add: flat blockIP_def config_def)
qed

lemma blocked_step:
  assumes "state (circuitBreaker s) = CLOSED" "blockedIPs s a = Some (now + 900000)" "0 \<le> now"
  shows "checkRateLimit now a requestSize ep s = (reject reason_blocked (Some 900), s)"
  unfolding checkRateLimit_flat using assms
  by (simp add: isCircuitBreakerOpen_def isIPBlocked_def)

lemma blocked_run:
  assumes "state (circuitBreaker s) = CLOSED" "blockedIPs s a = Some (now + 900000)" "0 \<le> now"
  shows "checkRateLimitTimes n now a requestSize ep s
           = (replicate n (reject reason_blocked (Some 900)), s)"
  by (induction n) (simp_all add: blocked_step [OF assms])

lemma initial_burstState: "burstState 0 now a requestSize ep initialService"
  by (simp add: burstState_def initialService_def logsOf_def fetchBucket_def config_def)

lemma burst_more:
  assumes "0 \<le> now" "requestSize \<le> 50000"
  shows "fst (checkRateLimitTimes (5 + Suc n) now a requestSize ep initialService) =
           replicate 5 admitted @ [reject reason_suspicious (Some 900)]
             @ replicate n (reject reason_blocked (Some 900))"
proof -
  let ?s5 = "snd (checkRateLimitTimes 5 now a requestSize ep initialService)"
  let ?s6 = "snd (checkRateLimit now a requestSize ep ?s5)"
  have five: "fst (checkRateLimitTimes 5 now a requestSize ep initialService) = replicate 5 admitted"
    "burstState 5 now a requestSize ep ?s5"
    using burst_run [OF initial_burstState, of 5 requestSize now a ep] assms(2) by simp_all
  note six = burst_sixth [OF five(2) assms(2)]
  have rest: "checkRateLimitTimes n now a requestSize ep ?s6
          = (replicate n (reject reason_blocked (Some 900)), ?s6)"
    by (rule blocked_run [OF six(2) six(3) assms(1)])
  have one: "checkRateLimitTimes (Suc n) now a requestSize ep ?s5
          = (reject reason_suspicious (Some 900) # replicate n (reject reason_blocked (Some 900)), ?s6)"
    by (simp add: case_prod_beta six(1) rest)
  show ?thesis
    unfolding checkRateLimitTimes_add one five(1) by simp
qed

lemma burst_21:
  assumes "0 \<le> now" "requestSize \<le> 50000"
  shows "fst (checkRateLimitTimes 21 now a requestSize ep initialService) =
           replicate 5 admitted @ [reject reason_suspicious (Some 900)]
             @ replicate 15 (reject reason_blocked (Some 900))"
  using burst_more [OF assms, of 15 a ep] by simp

lemma initial_bucket:
  "fetchBucket now a initialService = \<lparr>tokens = of_nat 20, lastRefill = now\<rparr>"
  by (simp add: fetchBucket_def initialService_def config_def)

lemma bucket_21:
  "fst (checkTokenBucketTimes 21 now a initialService) = replicate 20 True @ [False]"
  using checkTokenBucketTimes_level [OF initial_bucket, of 21 now a] by simp

lemma bucket_emptied:
  "tokenBuckets (snd (checkTokenBucketTimes 20 now a initialService)) a
     = Some \<lparr>tokens = 0, lastRefill = now\<rparr>"
proof -
  let ?s = "snd (checkTokenBucketTimes 20 now a initialService)"
  have f: "fetchBucket now a ?s = \<lparr>tokens = 0, lastRefill = now\<rparr>"
    using checkTokenBucketTimes_level [OF initial_bucket, of 20 now a] by simp
  show ?thesis
  proof (cases "tokenBuckets ?s a")
    case None
    then have "fetchBucket now a ?s = \<lparr>tokens = 20, lastRefill = now\<rparr>"
      by (simp add: fetchBucket_def config_def)
    with f show ?thesis by simp
  next
    case (Some b)
    with f show ?thesis by (simp add: fetchBucket_def)
  qed
qed

lemma consume_refill_bounds:
  "tokens (snd (consume (refill now b))) \<in> doubles"
  "tokens (snd (consume (refill now b))) \<le> 20"
  "lastRefill (snd (consume (refill now b))) = now"
proof -
  let ?r = "tokens (refill now b)"
  have cap: "?r \<le> 20" by (rule refill_le_20)
  have rd: "?r \<in> doubles" by (rule refill_doubles)
  have t': "tokens (snd (consume (refill now b))) = (if ?r \<ge> 1 then fl (?r - 1) else ?r)"
    by (simp add: consume_tokens)
  show "tokens (snd (consume (refill now b))) \<in> doubles" unfolding t' using rd by simp
  have "fl (?r - 1) \<le> fl 20" using cap by (intro fl_mono) simp
  then show "tokens (snd (consume (refill now b))) \<le> 20" unfolding t' using cap by simp
  show "lastRefill (snd (consume (refill now b))) = now"
    by (simp add: consume_lastRefill refill_lastRefill)
qed

lemma refill_mono_step:
  assumes "tokens b \<in> doubles" "0 \<le> tokens b" "tokens b \<le> 20" "lastRefill b \<le> now"
  shows "tokens b \<le> tokens (refill now b)"
    and "0 \<le> tokens (snd (consume (refill now b)))"
proof -
  let ?r = "tokens (refill now b)"
  let ?add = "fl (fl (rat_of_int (now - lastRefill b) / 1000) * (1 / 2))"
  have "0 \<le> rat_of_int (now - lastRefill b) / 1000" using assms(4) by simp
  then have "0 \<le> fl (rat_of_int (now - lastRefill b) / 1000)" by (rule fl_nonneg)
  then have add: "0 \<le> ?add" by (intro fl_nonneg) simp
  have "fl (tokens b) \<le> fl (tokens b + ?add)" using add by (intro fl_mono) simp
  then have "tokens b \<le> fl (tokens b + ?add)" using assms(1) by (simp add: fl_id)
  then show up: "tokens b \<le> ?r" unfolding refill_tokens using assms(3) by simp
  then have r0: "0 \<le> ?r" using assms(2) by simp
  have "0 \<le> fl (?r - 1)" if "1 \<le> ?r" using that by (intro fl_nonneg) simp
  then show "0 \<le> tokens (snd (consume (refill now b)))"
    unfolding consume_tokens using r0 by simp
qed

lemma checkTokenBucket_buckets:
  "tokenBuckets (snd (checkTokenBucket now a s)) =
     (tokenBuckets s)(a \<mapsto> snd (consume (refill now (fetchBucket now a s))))"
  by (simp add: checkTokenBucket_def case_prod_beta)

lemma checkTokenBucketRun_snoc:
  "checkTokenBucketRun (calls @ [(now, a)]) s
     = snd (checkTokenBucket now a (checkTokenBucketRun calls s))"
  by (simp add: checkTokenBucketRun_def)

text \<open>
  In a run of bucket checks from the fresh service whose clock never steps back, every
  stored bucket holds a double between 0 and the capacity and was refilled at the time of
  one of the checks.
\<close>

lemma checkTokenBucketRun_invariant:
  "sorted (map fst calls) \<Longrightarrow>
   tokenBuckets (checkTokenBucketRun calls initialService) a = Some b \<Longrightarrow>
   tokens b \<in> doubles \<and> 0 \<le> tokens b \<and> tokens b \<le> 20 \<and> lastRefill b \<in> fst ` set calls"
proof (induction calls arbitrary: a b rule: rev_induct)
  case Nil
  then show ?case by (simp add: checkTokenBucketRun_def initialService_def)
next
  case (snoc c calls)
  obtain now a0 where c: "c = (now, a0)" by (cases c)
  let ?s = "checkTokenBucketRun calls initialService"
  from snoc.prems(1) have srt: "sorted (map fst calls)" and le: "\<forall>t\<in>fst ` set calls. t \<le> now"
    by (auto simp add: c sorted_append)
  note ih = snoc.IH [OF srt]
  have st: "tokenBuckets (checkTokenBucketRun (calls @ [c]) initialService)
      = (tokenBuckets ?s)(a0 \<mapsto> snd (consume (refill now (fetchBucket now a0 ?s))))"
    by (simp add: c checkTokenBucketRun_snoc checkTokenBucket_buckets)
  show ?case
  proof (cases "a = a0")
    case False
    with snoc.prems(2) have "tokenBuckets ?s a = Some b" by (simp add: st)
    from ih [OF this] show ?thesis by auto
  next
    case True
    let ?b0 = "fetchBucket now a0 ?s"
    have b: "b = snd (consume (refill now ?b0))" using snoc.prems(2) True by (simp add: st)
    have b0: "tokens ?b0 \<in> doubles \<and> 0 \<le> tokens ?b0 \<and> tokens ?b0 \<le> 20 \<and> lastRefill ?b0 \<le> now"
    proof (cases "tokenBuckets ?s a0")
      case None
      then show ?thesis by (simp add: fetchBucket_def capacity_20)
    next
      case (Some b1)
      from ih [OF Some] le Some show ?thesis by (auto simp add: fetchBucket_def)
    qed
    then have "0 \<le> tokens b" unfolding b by (intro refill_mono_step(2)) simp_all
    then show ?thesis
      using consume_refill_bounds [of now ?b0] by (simp add: b c)
  qed
qed

text \<open>
  Claim C6, as amended.  Token bucket invariant and refill monotonicity.  In every call
  of the bucket check the refill step never raises the token count above the capacity,
  which is 20, and the stored bucket holds a double that is at most the capacity and
  carries the call's time.  When the clock reading is not earlier than the \<open>lastRefill\<close>
  of the identity's stored bucket, and that bucket (if there is one) holds a double with
  \<open>0 \<le> tokens \<le> capacity\<close>, the refill step does not lower the token count, and after
  the optional consumption of one token the stored bucket again satisfies
  \<open>0 \<le> tokens \<le> capacity\<close>.  An identity without a bucket starts with a full one.  So
  in every run of bucket checks from the fresh service whose clock readings never
  decrease, no refill step lowers the token count and every stored bucket satisfies
  \<open>0 \<le> tokens \<le> capacity\<close>.
\<close>

theorem tokenBucket_invariant:
  "tokens (refill now (fetchBucket now a s)) \<le> of_int (bucketCapacity config)
   \<and> bucketCapacity config = 20
   \<and> (\<exists>b'. tokenBuckets (snd (checkTokenBucket now a s)) a = Some b'
          \<and> tokens b' \<in> doubles \<and> tokens b' \<le> of_int (bucketCapacity config)
          \<and> lastRefill b' = now)
   \<and> (tokenBuckets s a = None \<longrightarrow>
        tokens (fetchBucket now a s) = of_int (bucketCapacity config))
   \<and> ((case tokenBuckets s a of
          None \<Rightarrow> True
        | Some b \<Rightarrow> tokens b \<in> doubles \<and> 0 \<le> tokens b
                     \<and> tokens b \<le> of_int (bucketCapacity config) \<and> lastRefill b \<le> now) \<longrightarrow>
        tokens (fetchBucket now a s) \<le> tokens (refill now (fetchBucket now a s))
        \<and> (\<exists>b'. tokenBuckets (snd (checkTokenBucket now a s)) a = Some b'
               \<and> 0 \<le> tokens b' \<and> tokens b' \<le> of_int (bucketCapacity config)))
   \<and> (sorted (map fst (calls @ [(now, a)])) \<longrightarrow>
        tokens (fetchBucket now a (checkTokenBucketRun calls initialService))
          \<le> tokens (refill now (fetchBucket now a (checkTokenBucketRun calls initialService)))
        \<and> (\<forall>a' b. tokenBuckets (checkTokenBucketRun (calls @ [(now, a)]) initialService) a'
                      = Some b \<longrightarrow>
                    0 \<le> tokens b \<and> tokens b \<le> of_int (bucketCapacity config)))"
proof -
  let ?b0 = "fetchBucket now a s"
  let ?b' = "snd (consume (refill now ?b0))"
  have cap: "tokens (refill now ?b0) \<le> 20" by (rule refill_le_20)
  have stored: "tokenBuckets (snd (checkTokenBucket now a s)) a = Some ?b'"
    by (simp add: checkTokenBucket_buckets)
  note bd = consume_refill_bounds [of now ?b0]
  have fresh: "tokens ?b0 = 20" if "tokenBuckets s a = None"
    using that by (simp add: fetchBucket_def config_def)
  have inv: "tokens ?b0 \<le> tokens (refill now ?b0) \<and> 0 \<le> tokens ?b'"
    if h: "case tokenBuckets s a of
          None \<Rightarrow> True
        | Some b \<Rightarrow> tokens b \<in> doubles \<and> 0 \<le> tokens b
                     \<and> tokens b \<le> of_int (bucketCapacity config) \<and> lastRefill b \<le> now"
  proof -
    have b0: "tokens ?b0 \<in> doubles" "0 \<le> tokens ?b0" "tokens ?b0 \<le> 20" "lastRefill ?b0 \<le> now"
      using h by (simp_all add: fetchBucket_def capacity_20 split: option.splits)
    from refill_mono_step [OF b0] show ?thesis by simp
  qed
  have run: "tokens (fetchBucket now a (checkTokenBucketRun calls initialService))
          \<le> tokens (refill now (fetchBucket now a (checkTokenBucketRun calls initialService)))
        \<and> (\<forall>a' b. tokenBuckets (checkTokenBucketRun (calls @ [(now, a)]) initialService) a'
                      = Some b \<longrightarrow> 0 \<le> tokens b \<and> tokens b \<le> 20)"
    if srt: "sorted (map fst (calls @ [(now, a)]))"
  proof -
    let ?s = "checkTokenBucketRun calls initialService"
    let ?f = "fetchBucket now a ?s"
    from srt have s0: "sorted (map fst calls)" and le: "\<forall>t\<in>fst ` set calls. t \<le> now"
      by (auto simp add: sorted_append)
    have f: "tokens ?f \<in> doubles \<and> 0 \<le> tokens ?f \<and> tokens ?f \<le> 20 \<and> lastRefill ?f \<le> now"
    proof (cases "tokenBuckets ?s a")
      case None
      then show ?thesis by (simp add: fetchBucket_def capacity_20)
    next
      case (Some b1)
      from checkTokenBucketRun_invariant [OF s0 Some] le Some show ?thesis
        by (auto simp add: fetchBucket_def)
    qed
    then have "tokens ?f \<le> tokens (refill now ?f)" by (intro refill_mono_step(1)) simp_all
    moreover have "0 \<le> tokens b \<and> tokens b \<le> 20"
      if "tokenBuckets (checkTokenBucketRun (calls @ [(now, a)]) initialService) a' = Some b"
      for a' b
      using checkTokenBucketRun_invariant [OF srt that] by simp
    ultimately show ?thesis by blast
  qed
  show ?thesis
    using cap stored bd fresh inv run by (simp add: capacity_20) (simp add: config_def)
qed

lemma half_doubles: "- (1 / 2) \<in> doubles" "3 / 2 \<in> doubles" "5 / 2 \<in> doubles"
  using doublesI [of "- 1" "- 1"] doublesI [of 3 "- 1"] doublesI [of 5 "- 1"]
  by (simp_all add: power_int_minus)

text \<open>
  The claim as stated fails when the clock steps back.  Twenty checks at time 1000 empty
  the bucket of an identity; a check of the same identity at time 0 then refills the
  bucket from 0 to -1/2 tokens, and -1/2 is what it stores.
\<close>

theorem tokenBucket_invariant_counterexample:
  "tokenBuckets (snd (checkTokenBucketTimes 20 1000 ''client_1'' initialService)) ''client_1''
     = Some \<lparr>tokens = 0, lastRefill = 1000\<rparr>
   \<and> tokens (refill 0 (fetchBucket 0 ''client_1''
        (snd (checkTokenBucketTimes 20 1000 ''client_1'' initialService))))
      < tokens (fetchBucket 0 ''client_1''
        (snd (checkTokenBucketTimes 20 1000 ''client_1'' initialService)))
   \<and> tokenBuckets (snd (checkTokenBucket 0 ''client_1''
        (snd (checkTokenBucketTimes 20 1000 ''client_1'' initialService)))) ''client_1''
      = Some \<lparr>tokens = - (1 / 2), lastRefill = 0\<rparr>"
proof -
  let ?s = "snd (checkTokenBucketTimes 20 1000 ''client_1'' initialService)"
  note e = bucket_emptied [of 1000 "''client_1''"]
  have f: "fetchBucket 0 ''client_1'' ?s = \<lparr>tokens = 0, lastRefill = 1000\<rparr>"
    by (simp add: fetchBucket_def e)
  have "fl (- 1) = - 1" using fl_of_int [of "- 1"] by simp
  then have r: "refill 0 \<lparr>tokens = 0, lastRefill = 1000\<rparr> = \<lparr>tokens = - (1 / 2), lastRefill = 0\<rparr>"
    by (simp add: refill_def capacity_20 fl_id half_doubles)
  show ?thesis
    unfolding checkTokenBucket_eq f r by (simp add: e consume_def)
qed

theorem tokenBucket_invariant_witness:
  "(case tokenBuckets (initialService\<lparr>tokenBuckets := [''client_1'' \<mapsto> \<lparr>tokens = 3 / 2, lastRefill = 1000\<rparr>]\<rparr>) ''client_1'' of
      None \<Rightarrow> True
    | Some b \<Rightarrow> tokens b \<in> doubles \<and> 0 \<le> tokens b \<and> tokens b \<le> of_int (bucketCapacity config)
                 \<and> lastRefill b \<le> 3000)
   \<and> tokens (refill 3000 (fetchBucket 3000 ''client_1''
        (initialService\<lparr>tokenBuckets := [''client_1'' \<mapsto> \<lparr>tokens = 3 / 2, lastRefill = 1000\<rparr>]\<rparr>))) = 5 / 2
   \<and> (\<exists>b'. tokenBuckets (snd (checkTokenBucket 3000 ''client_1''
        (initialService\<lparr>tokenBuckets := [''client_1'' \<mapsto> \<lparr>tokens = 3 / 2, lastRefill = 1000\<rparr>]\<rparr>))) ''client_1'' = Some b'
        \<and> 0 \<le> tokens b' \<and> tokens b' \<le> 20)
   \<and> sorted (map fst ([(1000::int, ''client_1''), (2000, ''client_2'')] @ [(3000, ''client_1'')]))
   \<and> tokenBuckets (checkTokenBucketRun
          ([(1000, ''client_1''), (2000, ''client_2'')] @ [(3000, ''client_1'')]) initialService)
        ''client_1'' = Some \<lparr>tokens = 19, lastRefill = 3000\<rparr>
   \<and> (\<exists>b. tokenBuckets (checkTokenBucketRun
          ([(1000, ''client_1''), (2000, ''client_2'')] @ [(3000, ''client_1'')]) initialService)
        ''client_1'' = Some b \<and> 0 \<le> tokens b \<and> tokens b \<le> 20)"
proof -
  let ?s = "initialService\<lparr>tokenBuckets := [''client_1'' \<mapsto> \<lparr>tokens = 3 / 2, lastRefill = 1000\<rparr>]\<rparr>"
  let ?run = "checkTokenBucketRun
          ([(1000, ''client_1''), (2000, ''client_2'')] @ [(3000, ''client_1'')]) initialService"
  have r: "refill 3000 \<lparr>tokens = 3 / 2, lastRefill = 1000\<rparr> = \<lparr>tokens = 5 / 2, lastRefill = 3000\<rparr>"
    by (simp add: refill_def capacity_20 fl_id half_doubles)
  have s: "sorted (map fst ([(1000::int, ''client_1''), (2000, ''client_2'')] @ [(3000, ''client_1'')]))"
    by simp
  have v: "tokenBuckets ?run ''client_1'' = Some \<lparr>tokens = 19, lastRefill = 3000\<rparr>"
    by (simp add: checkTokenBucketRun_def checkTokenBucket_def fetchBucket_def initialService_def
        refill_def consume_def config_def case_prod_beta Let_def)
  note T = tokenBucket_invariant [where s = ?s and a = "''client_1''" and now = 3000
      and calls = "[(1000, ''client_1''), (2000, ''client_2'')]"]
  have run: "\<forall>a' b. tokenBuckets ?run a' = Some b \<longrightarrow> 0 \<le> tokens b \<and> tokens b \<le> 20"
    using T s by (simp add: config_def)
  from run v have e: "\<exists>b. tokenBuckets ?run ''client_1'' = Some b \<and> 0 \<le> tokens b \<and> tokens b \<le> 20"
    by blast
  have step: "(case tokenBuckets ?s ''client_1'' of
      None \<Rightarrow> True
    | Some b \<Rightarrow> tokens b \<in> doubles \<and> 0 \<le> tokens b \<and> tokens b \<le> of_int (bucketCapacity config)
                 \<and> lastRefill b \<le> 3000)
   \<and> tokens (refill 3000 (fetchBucket 3000 ''client_1'' ?s)) = 5 / 2
   \<and> (\<exists>b'. tokenBuckets (snd (checkTokenBucket 3000 ''client_1'' ?s)) ''client_1'' = Some b'
        \<and> 0 \<le> tokens b' \<and> tokens b' \<le> 20)"
    using T by (simp add: config_def fetchBucket_def r half_doubles)
  show ?thesis using step s v e by blast
qed

text \<open>
  Claim C5, as amended.  The bucket has capacity 20 and refills half a token per second.
  From the initial service, 21 token-bucket checks of one identity at one instant succeed
  exactly 20 times and fail the 21st time.  Through the whole admission check the
  suspicious-pattern test (five logged requests within ten seconds) comes first: 21
  admission checks at one instant admit the first five, reject the sixth as suspicious
  and block the identity, and reject the other fifteen as blocked.
\<close>

theorem burst_admission:
  "0 \<le> now \<and> requestSize \<le> 50000 \<longrightarrow>
     bucketCapacity config = 20 \<and> refillRate config = 1 / 2
     \<and> fst (checkTokenBucketTimes 21 now a initialService) = replicate 20 True @ [False]
     \<and> fst (checkRateLimitTimes 21 now a requestSize ep initialService) =
           replicate 5 admitted @ [reject reason_suspicious (Some 900)]
             @ replicate 15 (reject reason_blocked (Some 900))"
  using burst_21 [of now requestSize a ep] bucket_21 [of now a]
  by (simp add: config_def)

text \<open>
  The claim as stated fails: of 21 admission checks at one instant it is not the first 20
  that are admitted, and the 21st is not rejected for the token bucket.
\<close>

theorem burst_admission_counterexample:
  "\<not> (map allowed (fst (checkRateLimitTimes 21 1000 ''client_1'' 100 ''gemini-api'' initialService))
        = replicate 20 True @ [False]
      \<and> reason (last (fst (checkRateLimitTimes 21 1000 ''client_1'' 100 ''gemini-api'' initialService)))
        = Some reason_burst)"
proof -
  have "fst (checkRateLimitTimes 21 1000 ''client_1'' 100 ''gemini-api'' initialService) =
           replicate 5 admitted @ [reject reason_suspicious (Some 900)]
             @ replicate 15 (reject reason_blocked (Some 900))"
    by (rule burst_21) simp_all
  then show ?thesis
    by (simp add: reject_def admitted_def numeral_eq_Suc)
qed

theorem burst_admission_witness:
  "fst (checkTokenBucketTimes 21 1000 ''client_1'' initialService) = replicate 20 True @ [False]
   \<and> map allowed (fst (checkRateLimitTimes 21 1000 ''client_1'' 100 ''gemini-api'' initialService))
       = replicate 5 True @ replicate 16 False"
  using burst_admission [of 1000 100 "''client_1''" "''gemini-api''"]
  by (simp add: reject_def admitted_def numeral_eq_Suc)

theorem rejection_consumes_token_witness:
  "reason (fst (checkRateLimit 1000 ''client_1'' 100 ''gemini-api''
      (initialService\<lparr>requestLogs := [''client_1'' \<mapsto>
         replicate 5 \<lparr>timestamp = 1000, ip = ''client_1'', size_bytes = 100, endpoint = ''gemini-api''\<rparr>]\<rparr>)))
     = Some reason_suspicious
   \<and> tokenBuckets (snd (checkRateLimit 1000 ''client_1'' 100 ''gemini-api''
      (initialService\<lparr>requestLogs := [''client_1'' \<mapsto>
         replicate 5 \<lparr>timestamp = 1000, ip = ''client_1'', size_bytes = 100, endpoint = ''gemini-api''\<rparr>]\<rparr>)))
     = [''client_1'' \<mapsto> \<lparr>tokens = 19, lastRefill = 1000\<rparr>]
   \<and> reason (fst (checkRateLimit 1000 ''client_1'' 60000 ''gemini-api'' initialService))
     = Some reason_size
   \<and> tokenBuckets (snd (checkRateLimit 1000 ''client_1'' 60000 ''gemini-api'' initialService))
     = Map.empty"
proof -
  let ?s = "initialService\<lparr>requestLogs := [''client_1'' \<mapsto>
         replicate 5 \<lparr>timestamp = 1000, ip = ''client_1'', size_bytes = 100, endpoint = ''gemini-api''\<rparr>]\<rparr>"
  have l: "logsOf ''client_1'' ?s = replicate 5 \<lparr>timestamp = 1000, ip = ''client_1'', size_bytes = 100, endpoint = ''gemini-api''\<rparr>"
    by (simp add: logsOf_def)
  have r: "refill 1000 (fetchBucket 1000 ''client_1'' ?s) = \<lparr>tokens = 20, lastRefill = 1000\<rparr>"
    by (simp add: fetchBucket_def initialService_def refill_def config_def fl_id)
  have 1: "reason (fst (checkRateLimit 1000 ''client_1'' 100 ''gemini-api'' ?s)) = Some reason_suspicious"
    unfolding checkRateLimit_flat l r
    using suspicious_replicate [of 1000 "''client_1''" 100 "''gemini-api''"]
    by (simp add: isCircuitBreakerOpen_def isIPBlocked_def initialService_def reject_def)
  have 2: "reason (fst (checkRateLimit 1000 ''client_1'' 60000 ''gemini-api'' initialService)) = Some reason_size"
    unfolding checkRateLimit_flat
    by (simp add: isCircuitBreakerOpen_def isIPBlocked_def initialService_def reject_def)
  show ?thesis
    using rejection_consumes_token [where now = 1000 and a = "''client_1''" and requestSize = 100
        and ep = "''gemini-api''" and s = ?s]
      rejection_consumes_token [where now = 1000 and a = "''client_1''" and requestSize = 60000
        and ep = "''gemini-api''" and s = initialService]
    unfolding 1 2 r
    by (simp add: initialService_def)
qed

section \<open>Properties of the autocomplete service\<close>

text \<open>
  Claim C7, as amended.  Cache round trip with lazy expiry: after \<open>set(key, results, ttl)\<close>
  at time \<open>t0\<close>, a \<open>get(key)\<close> at a time up to \<open>t0 + ttl\<close> returns the results as they
  were stored, that is, each with its \<open>timestamp\<close> field overwritten by \<open>t0\<close> and every
  other field as given, and keeps the entry; a \<open>get(key)\<close> at any later time returns
  absent and removes the entry on that read.
\<close>

theorem cache_round_trip:
  "fst (cache_get t key (cache_set t0 key items ttl c)) =
     (if t \<le> t0 + ttl then Some (map (\<lambda>item. item\<lparr>stamp := Some t0\<rparr>) items) else None)
   \<and> snd (cache_get t key (cache_set t0 key items ttl c)) key =
     (if t \<le> t0 + ttl
      then Some \<lparr>data = map (\<lambda>item. item\<lparr>stamp := Some t0\<rparr>) items, expiry = t0 + ttl\<rparr>
      else None)
   \<and> map (\<lambda>item. item\<lparr>stamp := None\<rparr>) (map (\<lambda>item. item\<lparr>stamp := Some t0\<rparr>) items)
       = map (\<lambda>item. item\<lparr>stamp := None\<rparr>) items"
  by (simp add: cache_get_def cache_set_def)

text \<open>
  The claim as stated fails: a result stored without a time stamp does not come back the
  same, even when it is read at once.
\<close>

theorem cache_round_trip_counterexample:
  "fst (cache_get 0 ''autocomplete:roma:8'' (cache_set 0 ''autocomplete:roma:8'' [romaLocal] 1000 Map.empty))
     \<noteq> Some [romaLocal]"
  by (simp add: cache_get_def cache_set_def romaLocal_def)

theorem cache_round_trip_witness:
  "fst (cache_get 500 ''autocomplete:roma:8'' (cache_set 0 ''autocomplete:roma:8'' [romaLocal] 1000 Map.empty))
     = Some [romaLocal\<lparr>stamp := Some 0\<rparr>]
   \<and> fst (cache_get 1001 ''autocomplete:roma:8'' (cache_set 0 ''autocomplete:roma:8'' [romaLocal] 1000 Map.empty))
     = None
   \<and> snd (cache_get 1001 ''autocomplete:roma:8'' (cache_set 0 ''autocomplete:roma:8'' [romaLocal] 1000 Map.empty))
        ''autocomplete:roma:8'' = None"
  using cache_round_trip [where t = 500 and ?t0.0 = 0 and ttl = 1000 and key = "''autocomplete:roma:8''"
      and items = "[romaLocal]" and c = Map.empty]
    cache_round_trip [where t = 1001 and ?t0.0 = 0 and ttl = 1000 and key = "''autocomplete:roma:8''"
      and items = "[romaLocal]" and c = Map.empty]
  by simp

lemma slice0_all: "int (length xs) \<le> n \<Longrightarrow> slice0 n xs = xs"
  by (simp add: slice0_def)

text \<open>
  Claim C8.  Fallback on external failure: for a query that reaches the external lookup
  (long enough, not cached, external lookup enabled, fewer local results than requested)
  and whose external lookup throws, \<open>getAutocompleteResults\<close> returns the local results
  with source local and the error attached in the returned record, not thrown, when
  \<open>fallbackToLocal\<close> is enabled and there is a local result; otherwise, in particular when
  there is no local result, the error is thrown to the caller.
\<close>

theorem fallback_on_external_failure:
  assumes reached: "\<not> (query = [] \<or> int (strLength js (trim js query)) < minQueryLength options)"
    "fst (cache_get now
       (''autocomplete:'' @ toLowerCase js (trim js query) @ '':'' @ showInt (maxResults options))
       (cache s)) = None"
    "useExternalAPI options"
    "int (length (searchDestinations query (maxResults options))) < maxResults options"
    and throws: "fst (fetchFromExternalAPI now options net (requests s)) = Inl err"
  shows "fst (getAutocompleteResults js searchDestinations getInitialSuggestions net now query options s) =
    (if fallbackToLocal options \<and> searchDestinations query (maxResults options) \<noteq> []
     then Inr \<lparr>results = map (enhance Local 90) (searchDestinations query (maxResults options)),
               answer_source = FromLocal, error = Some err, fromCache = False\<rparr>
     else Inl err)"
proof -
  let ?loc = "map (enhance Local 90) (searchDestinations query (maxResults options))"
  have sl: "slice0 (maxResults options) ?loc = ?loc"
    using reached(4) by (intro slice0_all) simp
  have nl: "\<not> maxResults options \<le> int (length (searchDestinations query (maxResults options)))"
    using reached(4) by simp
  show ?thesis
    unfolding getAutocompleteResults_def Let_def case_prod_beta
    using reached(1,2,3) nl throws sl
    by (simp split: option.splits)
qed

lemma ascii_trim: "trim asciiOps ''roma'' = ''roma''" "trim asciiOps ''aix'' = ''aix''"
  by (simp_all add: asciiOps_def asciiSpace_def)

lemma fetch_error:
  "fst (fetchFromExternalAPI 0 defaultOptions OtherError Map.empty) =
     Inl \<lparr>err_message = ''Network error'', err_code = ''NETWORK_ERROR'',
           err_retryable = True, err_retryAfter = None\<rparr>"
  by (simp add: fetchFromExternalAPI_def canMakeRequest_def Let_def)

lemma roma_enhanced: "enhance Local 90 romaCity = romaLocal"
  by (simp add: enhance_def romaCity_def romaLocal_def)

theorem fallback_on_external_failure_witness:
  "fst (getAutocompleteResults asciiOps (\<lambda>q n. [romaCity]) (\<lambda>n. []) OtherError 0 ''roma''
          defaultOptions emptyService)
     = Inr \<lparr>results = [romaLocal], answer_source = FromLocal,
            error = Some \<lparr>err_message = ''Network error'', err_code = ''NETWORK_ERROR'',
                           err_retryable = True, err_retryAfter = None\<rparr>,
            fromCache = False\<rparr>
   \<and> fst (getAutocompleteResults asciiOps (\<lambda>q n. []) (\<lambda>n. []) OtherError 0 ''roma''
          defaultOptions emptyService)
     = Inl \<lparr>err_message = ''Network error'', err_code = ''NETWORK_ERROR'',
            err_retryable = True, err_retryAfter = None\<rparr>"
proof -
  let ?err = "\<lparr>err_message = ''Network error'', err_code = ''NETWORK_ERROR'',
            err_retryable = True, err_retryAfter = None\<rparr>"
  have q: "\<not> (''roma'' = [] \<or> int (strLength asciiOps (trim asciiOps ''roma'')) < minQueryLength defaultOptions)"
    unfolding ascii_trim by (simp add: asciiOps_def defaultOptions_def)
  have c: "fst (cache_get 0 k (cache emptyService)) = None" for k
    by (simp add: cache_get_def emptyService_def)
  have u: "useExternalAPI defaultOptions" by (simp add: defaultOptions_def)
  have f: "fst (fetchFromExternalAPI 0 defaultOptions OtherError (requests emptyService)) = Inl ?err"
    using fetch_error by (simp add: emptyService_def)
  have l1: "int (length ((\<lambda>q n. [romaCity]) ''roma'' (maxResults defaultOptions))) < maxResults defaultOptions"
    by (simp add: defaultOptions_def)
  have l0: "int (length ((\<lambda>q n. [] :: CityResult list) ''roma'' (maxResults defaultOptions))) < maxResults defaultOptions"
    by (simp add: defaultOptions_def)
  show ?thesis
    using fallback_on_external_failure [where searchDestinations = "\<lambda>q n. [romaCity]"
        and getInitialSuggestions = "\<lambda>n. []", OF q c u l1 f]
      fallback_on_external_failure [where searchDestinations = "\<lambda>q n. []"
        and getInitialSuggestions = "\<lambda>n. []", OF q c u l0 f]
    by (simp add: roma_enhanced defaultOptions_def)
qed







section \<open>Properties of the AI request path\<close>

lemma recordFailure_failures:
  "failures (circuitBreaker (recordFailure t s)) = failures (circuitBreaker s) + 1"
  by (simp add: recordFailure_def Let_def)

lemma retryFrom_unfold:
  "k \<le> m \<Longrightarrow>
   retryFrom (generateOperation generate clock) clock m k s =
     (case generate k of
        Inr r \<Rightarrow> (Inr r, Suc k, recordFailure (clock k) s)
      | Inl e \<Rightarrow>
          if notRetried e then (Inl e, Suc k, s)
          else if k = m then (Inl e, Suc k, recordFailure (clock k) s)
          else retryFrom (generateOperation generate clock) clock m (Suc k) s)"
  by (subst retryFrom.simps) (simp add: generateOperation_def del: retryFrom.simps split: sum.splits)

text \<open>
  A response ends the retry loop: it is the answer of the last call that was made, every
  call before it threw, and the service has changed only by the \<open>recordFailure\<close> that
  follows the call that responded.
\<close>

lemma retryFrom_response:
  "retryFrom (generateOperation generate clock) clock m k s = (Inr r, calls, s2) \<Longrightarrow>
   k < calls \<and> calls \<le> Suc m \<and> generate (calls - 1) = Inr r
   \<and> s2 = recordFailure (clock (calls - 1)) s
   \<and> (\<forall>i. k \<le> i \<and> i < calls - 1 \<longrightarrow> (\<exists>e. generate i = Inl e))"
proof (induction n \<equiv> "Suc m - k" arbitrary: k)
  case 0
  then have "\<not> k \<le> m" by simp
  with 0 show ?case by (subst (asm) retryFrom.simps) (simp del: retryFrom.simps)
next
  case (Suc n)
  then have km: "k \<le> m" by simp
  note r = Suc.prems [unfolded retryFrom_unfold [OF km]]
  show ?case
  proof (cases "generate k")
    case (Inr r')
    with r km show ?thesis by auto
  next
    case (Inl e)
    with r have ne: "\<not> notRetried e" "k \<noteq> m"
      and rec: "retryFrom (generateOperation generate clock) clock m (Suc k) s = (Inr r, calls, s2)"
      by (simp_all del: retryFrom.simps split: if_splits)
    have "n = Suc m - Suc k" using Suc.hyps(2) by simp
    from Suc.hyps(1) [OF this rec]
    have ih: "Suc k < calls" "calls \<le> Suc m" "generate (calls - 1) = Inr r"
      "s2 = recordFailure (clock (calls - 1)) s"
      "\<forall>i. Suc k \<le> i \<and> i < calls - 1 \<longrightarrow> (\<exists>e. generate i = Inl e)"
      by simp_all
    have "\<exists>e. generate i = Inl e" if "k \<le> i \<and> i < calls - 1" for i
    proof (cases "i = k")
      case True
      then show ?thesis using Inl by simp
    next
      case False
      then show ?thesis using that ih(5) by simp
    qed
    then show ?thesis using ih by simp
  qed
qed

text \<open>
  An error that is no rate-limit or client error leaves the retry loop only after the
  last attempt, where the loop records a failure.
\<close>

lemma retryFrom_thrown:
  "retryFrom (generateOperation generate clock) clock m k s = (Inl e, calls, s2) \<Longrightarrow>
   \<not> notRetried e \<Longrightarrow> k \<le> m \<Longrightarrow>
   calls = Suc m \<and> generate m = Inl e \<and> s2 = recordFailure (clock m) s"
proof (induction n \<equiv> "m - k" arbitrary: k)
  case 0
  then have km: "k = m" by simp
  show ?case
    using "0.prems"(1,2) km
    by (auto simp add: retryFrom_unfold simp del: retryFrom.simps split: sum.splits if_splits)
next
  case (Suc n)
  then have km: "k < m" by simp
  note r = Suc.prems(1) [unfolded retryFrom_unfold [OF Suc.prems(3)]]
  show ?case
  proof (cases "generate k")
    case (Inr r')
    with r show ?thesis by simp
  next
    case (Inl e')
    show ?thesis
    proof (cases "notRetried e'")
      case True
      with r Inl Suc.prems(2) show ?thesis by auto
    next
      case False
      with r Inl km
      have rec: "retryFrom (generateOperation generate clock) clock m (Suc k) s = (Inl e, calls, s2)"
        by (simp del: retryFrom.simps)
      have "n = m - Suc k" using Suc.hyps(2) by simp
      from Suc.hyps(1) [OF this rec Suc.prems(2)] km show ?thesis by simp
    qed
  qed
qed

lemma retryFrom_all_thrown:
  "(\<forall>i\<le>m. generate i = Inl e) \<Longrightarrow> \<not> notRetried e \<Longrightarrow> k \<le> m \<Longrightarrow>
   retryFrom (generateOperation generate clock) clock m k s
     = (Inl e, Suc m, recordFailure (clock m) s)"
proof (induction n \<equiv> "m - k" arbitrary: k)
  case 0
  then have km: "k = m" by simp
  show ?case
    unfolding retryFrom_unfold [OF "0.prems"(3)] using "0.prems"(1,2) km
    by (simp del: retryFrom.simps)
next
  case (Suc n)
  then have km: "k < m" by simp
  have "n = m - Suc k" using Suc.hyps(2) by simp
  from Suc.hyps(1) [OF this Suc.prems(1,2)] km
  have "retryFrom (generateOperation generate clock) clock m (Suc k) s
     = (Inl e, Suc m, recordFailure (clock m) s)" by simp
  then show ?case
    unfolding retryFrom_unfold [OF Suc.prems(3)] using Suc.prems(1,2) km
    by (simp del: retryFrom.simps)
qed

lemma retry_first_response:
  assumes "generate 0 = Inr response"
  shows "retryWithBackoff (generateOperation generate clock) clock maxRetries s
           = (Inr response, 1, recordFailure (clock 0) s)"
  unfolding retryWithBackoff_def
  by (subst retryFrom_unfold) (simp_all add: assms del: retryFrom.simps)

lemma getTravelAnalysis_admitted:
  assumes "hasKey" "allowed (fst (checkRateLimit now a requestSize ''gemini-api'' s))"
    and "retryWithBackoff (generateOperation generate clock) clock 3
           (snd (checkRateLimit now a requestSize ''gemini-api'' s)) = (outcome, calls, s2)"
  shows "getTravelAnalysis js hasKey jsonParse generate clock caught now a requestSize s =
     (case (case outcome of
              Inl e \<Rightarrow> Inl e
            | Inr response \<Rightarrow>
                (case map_option (trim js) response of
                   None \<Rightarrow> Inl (ThrownError msg_empty)
                 | Some jsonText \<Rightarrow>
                     if jsonText = [] then Inl (ThrownError msg_empty)
                     else (case jsonParse (stripFences js jsonText) of
                             None \<Rightarrow> Inl ThrownSyntaxError
                           | Some parsedResponse \<Rightarrow> Inr (Parsed parsedResponse)))) of
        Inr result \<Rightarrow> (Inr result, calls, s2)
      | Inl e \<Rightarrow> (Inl (fst (handleError caught e s2)), calls, snd (handleError caught e s2)))"
  using assms
  by (simp add: getTravelAnalysis_def Let_def case_prod_beta split: sum.splits)

lemma handleError_syntax:
  "handleError caught ThrownSyntaxError s =
     (\<lparr>message = msg_malformed, statusCode = Some 422, api_retryAfter = None,
       isRateLimited = None\<rparr>, recordFailure caught s)"
  by (simp add: handleError_def Let_def)

lemma handleError_empty:
  "handleError caught (ThrownError msg_empty) s =
     (\<lparr>message = msg_unreachable, statusCode = Some 503, api_retryAfter = None,
       isRateLimited = None\<rparr>, recordFailure caught s)"
  by (simp add: handleError_def Let_def msg_empty_def)

lemma messages_differ: "msg_malformed \<noteq> msg_unreachable"
  by (simp add: msg_malformed_def msg_unreachable_def)

text \<open>
  Claim C3, as amended.  Of an admitted request, let the retry loop end with \<open>outcome\<close>
  after \<open>calls\<close> upstream calls, leaving the service \<open>s2\<close>.

  \<^item> A response ends the loop: it is the answer of the last call made, and the service is
    the admitted one with the \<open>recordFailure\<close> that follows that call.
  \<^item> A response whose text is not blank after trimming and fails \<open>JSON.parse\<close> gives the
    malformed-response error, status 422, with no further upstream call; the \<open>catch\<close>
    block records it as a circuit-breaker failure, so the failure count is one higher
    than in \<open>s2\<close>.
  \<^item> No schema is checked: a response whose text parses is returned as the result, and
    nothing is recorded after the loop.
  \<^item> A response whose text is missing or blank after trimming is not reported as
    malformed: it gives the error of status 503 that an unreachable service gives, and is
    recorded as a failure too.
  \<^item> A \<open>SyntaxError\<close> thrown by the upstream call is retried: it ends the loop only as
    the error of the fourth call, the loop records a failure, and then it gives the
    malformed-response error, status 422, recorded as a failure once more.
\<close>

theorem malformed_response:
  assumes "hasKey" "allowed (fst (checkRateLimit now a requestSize ''gemini-api'' s))"
    and "retryWithBackoff (generateOperation generate clock) clock 3
           (snd (checkRateLimit now a requestSize ''gemini-api'' s)) = (outcome, calls, s2)"
  shows
    "(\<forall>response. outcome = Inr response \<longrightarrow>
        1 \<le> calls \<and> calls \<le> 4 \<and> generate (calls - 1) = Inr response
        \<and> (\<forall>i < calls - 1. \<exists>e. generate i = Inl e)
        \<and> s2 = recordFailure (clock (calls - 1))
                 (snd (checkRateLimit now a requestSize ''gemini-api'' s)))
     \<and> (\<forall>body. outcome = Inr (Some body) \<and> trim js body \<noteq> []
           \<and> jsonParse (stripFences js (trim js body)) = None \<longrightarrow>
         getTravelAnalysis js hasKey jsonParse generate clock caught now a requestSize s =
           (Inl \<lparr>message = msg_malformed, statusCode = Some 422, api_retryAfter = None,
                 isRateLimited = None\<rparr>, calls, recordFailure caught s2))
     \<and> failures (circuitBreaker (recordFailure caught s2)) = failures (circuitBreaker s2) + 1
     \<and> (\<forall>body parsed. outcome = Inr (Some body) \<and> trim js body \<noteq> []
           \<and> jsonParse (stripFences js (trim js body)) = Some parsed \<longrightarrow>
         getTravelAnalysis js hasKey jsonParse generate clock caught now a requestSize s =
           (Inr (Parsed parsed), calls, s2))
     \<and> (outcome = Inr None \<or> (\<exists>body. outcome = Inr (Some body) \<and> trim js body = []) \<longrightarrow>
         getTravelAnalysis js hasKey jsonParse generate clock caught now a requestSize s =
           (Inl \<lparr>message = msg_unreachable, statusCode = Some 503, api_retryAfter = None,
                 isRateLimited = None\<rparr>, calls, recordFailure caught s2)
         \<and> msg_malformed \<noteq> msg_unreachable)
     \<and> (outcome = Inl ThrownSyntaxError \<longrightarrow>
         calls = 4 \<and> generate 3 = Inl ThrownSyntaxError
         \<and> s2 = recordFailure (clock 3) (snd (checkRateLimit now a requestSize ''gemini-api'' s))
         \<and> getTravelAnalysis js hasKey jsonParse generate clock caught now a requestSize s =
           (Inl \<lparr>message = msg_malformed, statusCode = Some 422, api_retryAfter = None,
                 isRateLimited = None\<rparr>, calls, recordFailure caught s2))
     \<and> ((\<forall>i\<le>3. generate i = Inl ThrownSyntaxError) \<longrightarrow> outcome = Inl ThrownSyntaxError)"
proof -
  let ?s1 = "snd (checkRateLimit now a requestSize ''gemini-api'' s)"
  note g = getTravelAnalysis_admitted [OF assms, where js = js and jsonParse = jsonParse and caught = caught]
  note r = assms(3) [unfolded retryWithBackoff_def]
  have 1: "1 \<le> calls \<and> calls \<le> 4 \<and> generate (calls - 1) = Inr response
        \<and> (\<forall>i < calls - 1. \<exists>e. generate i = Inl e)
        \<and> s2 = recordFailure (clock (calls - 1)) ?s1" if "outcome = Inr response" for response
    using retryFrom_response [OF r [unfolded that]] by simp
  have 2: "getTravelAnalysis js hasKey jsonParse generate clock caught now a requestSize s =
           (Inl \<lparr>message = msg_malformed, statusCode = Some 422, api_retryAfter = None,
                 isRateLimited = None\<rparr>, calls, recordFailure caught s2)"
    if "outcome = Inr (Some body) \<and> trim js body \<noteq> []
           \<and> jsonParse (stripFences js (trim js body)) = None" for body
    unfolding g using that by (simp add: handleError_syntax)
  have 3: "getTravelAnalysis js hasKey jsonParse generate clock caught now a requestSize s =
           (Inr (Parsed parsed), calls, s2)"
    if "outcome = Inr (Some body) \<and> trim js body \<noteq> []
           \<and> jsonParse (stripFences js (trim js body)) = Some parsed" for body parsed
    unfolding g using that by simp
  have 4: "getTravelAnalysis js hasKey jsonParse generate clock caught now a requestSize s =
           (Inl \<lparr>message = msg_unreachable, statusCode = Some 503, api_retryAfter = None,
                 isRateLimited = None\<rparr>, calls, recordFailure caught s2)"
    if "outcome = Inr None \<or> (\<exists>body. outcome = Inr (Some body) \<and> trim js body = [])"
    unfolding g using that by (auto simp add: handleError_empty)
  have 5: "calls = 4 \<and> generate 3 = Inl ThrownSyntaxError \<and> s2 = recordFailure (clock 3) ?s1
         \<and> getTravelAnalysis js hasKey jsonParse generate clock caught now a requestSize s =
           (Inl \<lparr>message = msg_malformed, statusCode = Some 422, api_retryAfter = None,
                 isRateLimited = None\<rparr>, calls, recordFailure caught s2)"
    if o: "outcome = Inl ThrownSyntaxError"
  proof -
    have "calls = Suc 3 \<and> generate 3 = Inl ThrownSyntaxError \<and> s2 = recordFailure (clock 3) ?s1"
      by (rule retryFrom_thrown [OF r [unfolded o]]) (simp_all add: notRetried_def)
    moreover have "getTravelAnalysis js hasKey jsonParse generate clock caught now a requestSize s =
           (Inl \<lparr>message = msg_malformed, statusCode = Some 422, api_retryAfter = None,
                 isRateLimited = None\<rparr>, calls, recordFailure caught s2)"
      unfolding g o by (simp add: handleError_syntax)
    ultimately show ?thesis by simp
  qed
  have 6: "outcome = Inl ThrownSyntaxError" if "\<forall>i\<le>3. generate i = Inl ThrownSyntaxError"
    using r retryFrom_all_thrown [OF that, of 0 clock ?s1] by (simp add: notRetried_def)
  show ?thesis
    using 1 2 3 4 5 6 recordFailure_failures [of caught s2] messages_differ by blast
qed

lemma admitted_initially:
  assumes "state (circuitBreaker s) = CLOSED" "blockedIPs s = Map.empty" "requestLogs s = Map.empty"
    "tokenBuckets s = Map.empty"
  shows "fst (checkRateLimit 1000 ''client_1'' 100 ''gemini-api'' s) = admitted"
    "circuitBreaker (snd (checkRateLimit 1000 ''client_1'' 100 ''gemini-api'' s)) = circuitBreaker s"
proof -
  have b: "burstState 0 1000 ''client_1'' 100 ''gemini-api'' s"
    using assms by (simp add: burstState_def logsOf_def fetchBucket_def config_def)
  show "fst (checkRateLimit 1000 ''client_1'' 100 ''gemini-api'' s) = admitted"
    by (rule burst_step(1) [OF b]) simp_all
  show "circuitBreaker (snd (checkRateLimit 1000 ''client_1'' 100 ''gemini-api'' s)) = circuitBreaker s"
    by (simp add: checkRateLimit_flat afterBlockCheck_other afterBucketCheck_other blockIP_def)
qed

lemma ascii_texts:
  "trim asciiOps ''{}'' = ''{}''" "trim asciiOps ''not json'' = ''not json''"
  "trim asciiOps ''  '' = []"
  "stripFences asciiOps ''{}'' = ''{}''" "stripFences asciiOps ''not json'' = ''not json''"
  by (simp_all add: asciiOps_def asciiSpace_def stripFences_def fence_def)

text \<open>
  Claim C2 does not hold of the code.  After a successful upstream call the orchestrator
  calls \<open>recordFailure\<close> (under the comment "Reset failure count on success"): with
  four failures counted and the breaker \<open>CLOSED\<close>, one successful request with a
  well-formed answer leaves five failures counted and the breaker \<open>OPEN\<close>.
\<close>

theorem success_records_failure:
  "fst (getTravelAnalysis asciiOps True parseBraces (\<lambda>i. Inr (Some ''{}'')) (\<lambda>i. 1500) 2000 1000
          ''client_1'' 100 nearlyOpen) = Inr (Parsed ())
   \<and> circuitBreaker (snd (snd (getTravelAnalysis asciiOps True parseBraces (\<lambda>i. Inr (Some ''{}''))
          (\<lambda>i. 1500) 2000 1000 ''client_1'' 100 nearlyOpen)))
       = \<lparr>failures = 5, lastFailureTime = 1500, state = OPEN\<rparr>"
proof -
  let ?s1 = "snd (checkRateLimit 1000 ''client_1'' 100 ''gemini-api'' nearlyOpen)"
  have a: "allowed (fst (checkRateLimit 1000 ''client_1'' 100 ''gemini-api'' nearlyOpen))"
    and cb: "circuitBreaker ?s1 = \<lparr>failures = 4, lastFailureTime = 0, state = CLOSED\<rparr>"
    using admitted_initially [of nearlyOpen]
    by (simp_all add: nearlyOpen_def initialService_def admitted_def)
  have r: "retryWithBackoff (generateOperation (\<lambda>i. Inr (Some ''{}'')) (\<lambda>i. 1500)) (\<lambda>i. 1500) 3 ?s1
      = (Inr (Some ''{}''), 1, recordFailure 1500 ?s1)"
    by (rule retry_first_response) simp
  show ?thesis
    unfolding getTravelAnalysis_admitted [OF TrueI a r]
    by (simp add: ascii_texts parseBraces_def recordFailure_def Let_def cb)
qed

lemma admitted_fresh:
  "allowed (fst (checkRateLimit 1000 ''client_1'' 100 ''gemini-api'' initialService))"
  "circuitBreaker (snd (checkRateLimit 1000 ''client_1'' 100 ''gemini-api'' initialService))
     = \<lparr>failures = 0, lastFailureTime = 0, state = CLOSED\<rparr>"
  using admitted_initially [of initialService]
  by (simp_all add: initialService_def admitted_def)

lemma retry_all_syntax:
  "retryWithBackoff (generateOperation (\<lambda>i. Inl ThrownSyntaxError) clock) clock 3 s
     = (Inl ThrownSyntaxError, 4, recordFailure (clock 3) s)"
  unfolding retryWithBackoff_def
  using retryFrom_all_thrown [of 3 "\<lambda>i. Inl ThrownSyntaxError" ThrownSyntaxError 0 clock s]
  by (simp add: notRetried_def del: retryFrom.simps)

text \<open>
  The claim as stated fails.  After a response with the malformed text \<open>not json\<close> the
  failure count has changed.  The empty object, which has none of the fields the schema
  requires, is returned as the result.  A response of blank text is answered with status
  503, not with the malformed-response error.  When every upstream call throws a
  \<open>SyntaxError\<close>, four calls are made.
\<close>

theorem malformed_response_counterexample:
  "failures (circuitBreaker (snd (snd (getTravelAnalysis asciiOps True parseBraces
      (\<lambda>i. Inr (Some ''not json'')) (\<lambda>i. 1500) 2000 1000 ''client_1'' 100 initialService))))
     \<noteq> failures (circuitBreaker initialService)
   \<and> fst (getTravelAnalysis asciiOps True parseBraces
      (\<lambda>i. Inr (Some ''{}'')) (\<lambda>i. 1500) 2000 1000 ''client_1'' 100 initialService)
     = Inr (Parsed ())
   \<and> map_sum statusCode id (fst (getTravelAnalysis asciiOps True parseBraces
      (\<lambda>i. Inr (Some ''  '')) (\<lambda>i. 1500) 2000 1000 ''client_1'' 100 initialService))
     = Inl (Some 503)
   \<and> fst (snd (getTravelAnalysis asciiOps True parseBraces
      (\<lambda>i. Inl ThrownSyntaxError) (\<lambda>i. 1500) 2000 1000 ''client_1'' 100 initialService))
     = 4"
proof -
  let ?s1 = "snd (checkRateLimit 1000 ''client_1'' 100 ''gemini-api'' initialService)"
  note a = admitted_fresh(1)
  have r: "retryWithBackoff (generateOperation (\<lambda>i. Inr (Some body)) (\<lambda>i. 1500)) (\<lambda>i. 1500) 3 ?s1
      = (Inr (Some body), 1, recordFailure 1500 ?s1)" for body
    by (rule retry_first_response) simp
  have f0: "failures (circuitBreaker initialService) = 0" by (simp add: initialService_def)
  have 1: "failures (circuitBreaker (snd (snd (getTravelAnalysis asciiOps True parseBraces
      (\<lambda>i. Inr (Some ''not json'')) (\<lambda>i. 1500) 2000 1000 ''client_1'' 100 initialService))))
     \<noteq> failures (circuitBreaker initialService)"
    unfolding getTravelAnalysis_admitted [OF TrueI a r]
    by (simp add: ascii_texts parseBraces_def handleError_syntax recordFailure_failures
        admitted_fresh(2) f0)
  have 2: "fst (getTravelAnalysis asciiOps True parseBraces
      (\<lambda>i. Inr (Some ''{}'')) (\<lambda>i. 1500) 2000 1000 ''client_1'' 100 initialService)
     = Inr (Parsed ())"
    unfolding getTravelAnalysis_admitted [OF TrueI a r]
    by (simp add: ascii_texts parseBraces_def)
  have 3: "map_sum statusCode id (fst (getTravelAnalysis asciiOps True parseBraces
      (\<lambda>i. Inr (Some ''  '')) (\<lambda>i. 1500) 2000 1000 ''client_1'' 100 initialService))
     = Inl (Some 503)"
    unfolding getTravelAnalysis_admitted [OF TrueI a r]
    by (simp add: ascii_texts handleError_empty)
  have 4: "fst (snd (getTravelAnalysis asciiOps True parseBraces
      (\<lambda>i. Inl ThrownSyntaxError) (\<lambda>i. 1500) 2000 1000 ''client_1'' 100 initialService))
     = 4"
    unfolding getTravelAnalysis_admitted [OF TrueI a retry_all_syntax]
    by (simp add: handleError_syntax)
  show ?thesis using 1 2 3 4 by simp
qed

theorem malformed_response_witness:
  "getTravelAnalysis asciiOps True parseBraces (\<lambda>i. Inr (Some ''not json'')) (\<lambda>i. 1500) 2000 1000
      ''client_1'' 100 initialService =
     (Inl \<lparr>message = msg_malformed, statusCode = Some 422, api_retryAfter = None,
           isRateLimited = None\<rparr>, 1,
      recordFailure 2000 (recordFailure 1500
        (snd (checkRateLimit 1000 ''client_1'' 100 ''gemini-api'' initialService))))
   \<and> getTravelAnalysis asciiOps True parseBraces (\<lambda>i. Inr (Some ''{}'')) (\<lambda>i. 1500) 2000 1000
      ''client_1'' 100 initialService =
     (Inr (Parsed ()), 1,
      recordFailure 1500 (snd (checkRateLimit 1000 ''client_1'' 100 ''gemini-api'' initialService)))
   \<and> getTravelAnalysis asciiOps True parseBraces (\<lambda>i. Inr (Some ''  '')) (\<lambda>i. 1500) 2000 1000
      ''client_1'' 100 initialService =
     (Inl \<lparr>message = msg_unreachable, statusCode = Some 503, api_retryAfter = None,
           isRateLimited = None\<rparr>, 1,
      recordFailure 2000 (recordFailure 1500
        (snd (checkRateLimit 1000 ''client_1'' 100 ''gemini-api'' initialService))))
   \<and> getTravelAnalysis asciiOps True parseBraces (\<lambda>i. Inl ThrownSyntaxError) (\<lambda>i. 1500) 2000 1000
      ''client_1'' 100 initialService =
     (Inl \<lparr>message = msg_malformed, statusCode = Some 422, api_retryAfter = None,
           isRateLimited = None\<rparr>, 4,
      recordFailure 2000 (recordFailure 1500
        (snd (checkRateLimit 1000 ''client_1'' 100 ''gemini-api'' initialService))))"
proof -
  let ?s1 = "snd (checkRateLimit 1000 ''client_1'' 100 ''gemini-api'' initialService)"
  note a = admitted_fresh(1)
  have r: "retryWithBackoff (generateOperation (\<lambda>i. Inr (Some body)) (\<lambda>i. 1500)) (\<lambda>i. 1500) 3 ?s1
      = (Inr (Some body), 1, recordFailure 1500 ?s1)" for body
    by (rule retry_first_response) simp
  have p: "parseBraces (stripFences asciiOps (trim asciiOps ''not json'')) = None"
    "parseBraces (stripFences asciiOps (trim asciiOps ''{}'')) = Some ()"
    by (simp_all add: ascii_texts parseBraces_def)
  have t: "trim asciiOps ''not json'' \<noteq> []" "trim asciiOps ''{}'' \<noteq> []" "trim asciiOps ''  '' = []"
    by (simp_all add: ascii_texts)
  note m1 = malformed_response [OF TrueI a r [of "''not json''"], where js = asciiOps and jsonParse = parseBraces and caught = 2000]
  note m2 = malformed_response [OF TrueI a r [of "''{}''"], where js = asciiOps and jsonParse = parseBraces and caught = 2000]
  note m3 = malformed_response [OF TrueI a r [of "''  ''"], where js = asciiOps and jsonParse = parseBraces and caught = 2000]
  note m4 = malformed_response [OF TrueI a retry_all_syntax, where js = asciiOps and jsonParse = parseBraces and caught = 2000]
  have 1: "getTravelAnalysis asciiOps True parseBraces (\<lambda>i. Inr (Some ''not json'')) (\<lambda>i. 1500) 2000 1000
      ''client_1'' 100 initialService =
     (Inl \<lparr>message = msg_malformed, statusCode = Some 422, api_retryAfter = None,
           isRateLimited = None\<rparr>, 1, recordFailure 2000 (recordFailure 1500 ?s1))"
    using m1 p(1) t(1) by blast
  have 2: "getTravelAnalysis asciiOps True parseBraces (\<lambda>i. Inr (Some ''{}'')) (\<lambda>i. 1500) 2000 1000
      ''client_1'' 100 initialService = (Inr (Parsed ()), 1, recordFailure 1500 ?s1)"
    using m2 p(2) t(2) by blast
  have 3: "getTravelAnalysis asciiOps True parseBraces (\<lambda>i. Inr (Some ''  '')) (\<lambda>i. 1500) 2000 1000
      ''client_1'' 100 initialService =
     (Inl \<lparr>message = msg_unreachable, statusCode = Some 503, api_retryAfter = None,
           isRateLimited = None\<rparr>, 1, recordFailure 2000 (recordFailure 1500 ?s1))"
    using m3 t(3) by blast
  have 4: "getTravelAnalysis asciiOps True parseBraces (\<lambda>i. Inl ThrownSyntaxError) (\<lambda>i. 1500) 2000 1000
      ''client_1'' 100 initialService =
     (Inl \<lparr>message = msg_malformed, statusCode = Some 422, api_retryAfter = None,
           isRateLimited = None\<rparr>, 4, recordFailure 2000 (recordFailure 1500 ?s1))"
    using m4 by blast
  show ?thesis using 1 2 3 4 by simp
qed

end
